theory Spec2Isabelle
  imports Complex_Main "HOL-Library.Word" "HOL-Library.Monad_Syntax"
begin

section \<open>The audio-reactive mandala engine\<close>

text \<open>
  The development follows the later revision of the mandala visualizer (the draw loop with
  beat detection, pattern cross-fade and symmetry interpolation), the fractal-tree generator
  of both revisions, and the hue accumulator of the waveform and frequency-bar visualizers.

  Numbers. A JavaScript number is modelled by an exact rational: decimal constants such as
  \<open>0.025\<close> are read as the fractions they denote and no operation rounds. The one place
  where the source can leave the finite numbers, a division by zero in the band energies, is
  modelled by the type \<open>jsnum\<close> below. Integer-valued variables of the source (frame counters,
  symmetry counts, recursion depth) are \<open>int\<close>. The bytes of a \<open>Uint8Array\<close> are \<open>8 word\<close>.

  Randomness. Every call of \<open>Math.random()\<close> is an input of the frame that makes it.

  Drawing. Canvas operations are recorded as values (which pattern is drawn at which rotation
  index and opacity, which branch of the fractal tree is stroked); coordinates, colours and
  angles, which the source computes with trigonometric functions and which never influence
  control flow, are left out.
\<close>

subsection \<open>Numbers that may be undefined\<close>

datatype jsnum = Num rat | NaN | PosInf | NegInf

text \<open>The operator \<open>/\<close> of the source on two numbers (signed zeros are not distinguished).\<close>

fun js_div :: "jsnum \<Rightarrow> jsnum \<Rightarrow> jsnum" where
  "js_div (Num a) (Num b) =
     (if b \<noteq> 0 then Num (a / b)
      else if a = 0 then NaN
      else if 0 < a then PosInf else NegInf)"
| "js_div NaN _ = NaN"
| "js_div _ NaN = NaN"
| "js_div (Num a) _ = Num 0"
| "js_div PosInf (Num b) = (if 0 \<le> b then PosInf else NegInf)"
| "js_div NegInf (Num b) = (if 0 \<le> b then NegInf else PosInf)"
| "js_div _ _ = NaN"

definition js_of_nat :: "nat \<Rightarrow> jsnum" where
  "js_of_nat n = Num (of_nat n)"

subsection \<open>Band energies (feature extraction)\<close>

type_synonym byte = "8 word"

record 'a bands =
  average :: 'a
  bassLevel :: 'a
  lowMidLevel :: 'a
  highMidLevel :: 'a
  trebleLevel :: 'a

record band_sums =
  bassSum :: nat
  lowMidSum :: nat
  highMidSum :: nat
  trebleSum :: nat
  totalSum :: nat

definition bassRange :: "nat \<Rightarrow> nat" where
  "bassRange bufferLength = min 10 bufferLength"

definition lowMidRange :: "nat \<Rightarrow> nat" where
  "lowMidRange bufferLength = min 40 bufferLength"

definition highMidRange :: "nat \<Rightarrow> nat" where
  "highMidRange bufferLength = min 100 bufferLength"

definition trebleRange :: "nat \<Rightarrow> nat" where
  "trebleRange bufferLength = min 200 bufferLength"

text \<open>One iteration of the loop over the first \<open>min 200 bufferLength\<close> bins.\<close>

definition sum_bin :: "byte list \<Rightarrow> nat \<Rightarrow> band_sums \<Rightarrow> band_sums" where
  "sum_bin dataArray i s =
     (let n = length dataArray;
          v = unat (dataArray ! i);
          s1 = s\<lparr>totalSum := totalSum s + v\<rparr>;
          s2 = (if i < bassRange n then s1\<lparr>bassSum := bassSum s1 + v\<rparr> else s1);
          s3 = (if bassRange n \<le> i \<and> i < lowMidRange n
                then s2\<lparr>lowMidSum := lowMidSum s2 + v\<rparr> else s2);
          s4 = (if lowMidRange n \<le> i \<and> i < highMidRange n
                then s3\<lparr>highMidSum := highMidSum s3 + v\<rparr> else s3);
          s5 = (if highMidRange n \<le> i \<and> i < trebleRange n
                then s4\<lparr>trebleSum := trebleSum s4 + v\<rparr> else s4)
      in s5)"

definition zero_sums :: band_sums where
  "zero_sums = \<lparr>bassSum = 0, lowMidSum = 0, highMidSum = 0, trebleSum = 0, totalSum = 0\<rparr>"

definition sum_bins :: "byte list \<Rightarrow> band_sums" where
  "sum_bins dataArray =
     fold (sum_bin dataArray) [0 ..< min 200 (length dataArray)] zero_sums"

text \<open>
  The five energies. \<open>average\<close> and \<open>bassLevel\<close> divide by the unguarded widths
  \<open>min 200 bufferLength\<close> and \<open>bassRange\<close>; the other three divide by \<open>max 1 width\<close>.
\<close>

definition band_levels :: "byte list \<Rightarrow> jsnum bands" where
  "band_levels dataArray =
     (let n = length dataArray;
          s = sum_bins dataArray
      in \<lparr>average = js_div (js_div (js_of_nat (totalSum s)) (js_of_nat (min 200 n))) (Num 255),
          bassLevel = js_div (js_div (js_of_nat (bassSum s)) (js_of_nat (bassRange n))) (Num 255),
          lowMidLevel =
            js_div (js_div (js_of_nat (lowMidSum s))
                      (js_of_nat (max 1 (lowMidRange n - bassRange n)))) (Num 255),
          highMidLevel =
            js_div (js_div (js_of_nat (highMidSum s))
                      (js_of_nat (max 1 (highMidRange n - lowMidRange n)))) (Num 255),
          trebleLevel =
            js_div (js_div (js_of_nat (trebleSum s))
                      (js_of_nat (max 1 (trebleRange n - highMidRange n)))) (Num 255)\<rparr>)"

text \<open>The energies as plain numbers, when all five are finite.\<close>

definition finite_bands :: "jsnum bands \<Rightarrow> rat bands option" where
  "finite_bands b =
     (case (average b, bassLevel b, lowMidLevel b, highMidLevel b, trebleLevel b) of
        (Num a, Num ba, Num lm, Num hm, Num tr) \<Rightarrow>
          Some \<lparr>average = a, bassLevel = ba, lowMidLevel = lm, highMidLevel = hm,
                trebleLevel = tr\<rparr>
      | _ \<Rightarrow> None)"


text \<open>Membership in the unit interval, and the mean of the first \<open>k\<close> bins.\<close>

fun in_unit :: "jsnum \<Rightarrow> bool" where
  "in_unit (Num q) = (0 \<le> q \<and> q \<le> 1)"
| "in_unit _ = False"

definition mean_first :: "nat \<Rightarrow> byte list \<Rightarrow> rat" where
  "mean_first k dataArray = of_nat (sum_list (map unat (take k dataArray))) / of_nat k"

subsection \<open>Quality profile\<close>

record performanceConfig =
  qualityLevel :: rat
  drawEveryNthFrame :: int
  complexityReduction :: bool
  maxPoints :: int
  useBlur :: bool
  maxSymmetry :: int
  enableAdvancedEffects :: bool
  useGradients :: bool

definition default_config :: performanceConfig where
  "default_config =
     \<lparr>qualityLevel = 22 / 10, drawEveryNthFrame = 2, complexityReduction = True,
      maxPoints = 120, useBlur = False, maxSymmetry = 10, enableAdvancedEffects = True,
      useGradients = False\<rparr>"

text \<open>
  \<open>detectPerformance\<close> returns the profile together with the initial \<open>fractalDepth\<close>, which it
  also assigns. Its inputs are \<open>navigator.hardwareConcurrency\<close> and the result of the
  user-agent test for a mobile device.
\<close>

definition detectPerformance :: "nat \<Rightarrow> bool \<Rightarrow> performanceConfig \<times> int" where
  "detectPerformance hardwareConcurrency isMobile =
     (let isLowEnd = hardwareConcurrency \<le> 4;
          isMidRange = 4 < hardwareConcurrency \<and> hardwareConcurrency < 8;
          isHighEnd = 8 \<le> hardwareConcurrency;
          (cfg, depth) =
            (if isLowEnd then
               (default_config\<lparr>qualityLevel := 4, drawEveryNthFrame := 3, maxPoints := 60,
                  maxSymmetry := 6, useBlur := False, enableAdvancedEffects := False,
                  useGradients := False\<rparr>, 1)
             else if isMidRange then
               (default_config\<lparr>qualityLevel := 28 / 10, drawEveryNthFrame := 2, maxPoints := 90,
                  maxSymmetry := 8, useBlur := False, enableAdvancedEffects := True,
                  useGradients := False\<rparr>, 2)
             else if isHighEnd then
               (default_config\<lparr>qualityLevel := 22 / 10, drawEveryNthFrame := 2, maxPoints := 120,
                  maxSymmetry := 10, useBlur := False, enableAdvancedEffects := True,
                  useGradients := True\<rparr>, 2)
             else (default_config, 3))
      in if isMobile then
           (cfg\<lparr>qualityLevel := 4, drawEveryNthFrame := 3, maxPoints := 50, maxSymmetry := 4,
              useBlur := False, enableAdvancedEffects := False, useGradients := False\<rparr>, 1)
         else (cfg, depth))"

subsection \<open>Engine state\<close>

datatype pattern =
  SPIRAL | FLOWER | STARBURST | NESTED_CIRCLES | FRACTAL_TREE | WAVE_PATTERN | SYMMETRICAL_WEB

record beat_detector =
  history :: "rat list"
  threshold :: rat
  lastBeat :: int
  confidence :: rat

record audio_state =
  lastBassImpact :: int
  bassImpactThreshold :: rat
  midTransition :: rat
  highTransition :: rat
  energyHistory :: "rat list"
  energyTrend :: rat
  beatDetector :: beat_detector

text \<open>
  The variables of the closure that the draw loop reads and writes. Rotation, rotation speed
  and the fractal rotation only parameterise drawing and are not part of the state here.
\<close>

record engine_state =
  audioState :: audio_state
  hue :: rat
  frame :: int
  symmetry :: int
  lastSymmetryChange :: int
  targetSymmetry :: int
  symmetryTransition :: rat
  fractalDepth :: int
  fractalScale :: rat
  currentPattern :: pattern
  targetPattern :: pattern
  patternTransition :: rat
  patternChangeCounter :: int
  frameCounter :: int

definition init_state :: "int \<Rightarrow> engine_state" where
  "init_state depth =
     \<lparr>audioState =
        \<lparr>lastBassImpact = 0, bassImpactThreshold = 8 / 10, midTransition = 0,
         highTransition = 0, energyHistory = replicate 8 (1 / 2), energyTrend = 0,
         beatDetector = \<lparr>history = replicate 5 0, threshold = 7 / 10, lastBeat = 0,
                          confidence = 0\<rparr>\<rparr>,
      hue = 0, frame = 0, symmetry = 8, lastSymmetryChange = 0, targetSymmetry = 8,
      symmetryTransition = 1, fractalDepth = depth, fractalScale = 7 / 10,
      currentPattern = FLOWER, targetPattern = FLOWER, patternTransition = 1,
      patternChangeCounter = 0, frameCounter = 0\<rparr>"

text \<open>The engine as set up for a device: its profile and its initial state.\<close>

definition profile_of :: "nat \<Rightarrow> bool \<Rightarrow> performanceConfig" where
  "profile_of hardwareConcurrency isMobile = fst (detectPerformance hardwareConcurrency isMobile)"

definition initial_state :: "nat \<Rightarrow> bool \<Rightarrow> engine_state" where
  "initial_state hardwareConcurrency isMobile =
     init_state (snd (detectPerformance hardwareConcurrency isMobile))"

text \<open>The values \<open>Math.random()\<close> returns within one frame, each in \<open>[0, 1)\<close>.\<close>

record frame_random =
  randPattern :: rat
  randSymmetry :: rat

definition valid_random :: "frame_random \<Rightarrow> bool" where
  "valid_random r \<longleftrightarrow>
     0 \<le> randPattern r \<and> randPattern r < 1 \<and> 0 \<le> randSymmetry r \<and> randSymmetry r < 1"

subsection \<open>Arithmetic helpers of the source language\<close>

text \<open>\<open>a % b\<close> on numbers (the remainder takes the sign of the dividend), for \<open>b \<noteq> 0\<close>.\<close>

definition js_rem :: "rat \<Rightarrow> rat \<Rightarrow> rat" where
  "js_rem a b =
     (let q = a / b; t = (if 0 \<le> q then \<lfloor>q\<rfloor> else \<lceil>q\<rceil>) in a - b * of_int t)"

text \<open>\<open>Math.round\<close>: the nearest integer, halves rounded up.\<close>

definition js_round :: "rat \<Rightarrow> int" where
  "js_round x = \<lfloor>x + 1 / 2\<rfloor>"


subsection \<open>Energy history and beat detection\<close>

text \<open>\<open>shift\<close> followed by \<open>push\<close> on a history array.\<close>

definition shift_push :: "rat list \<Rightarrow> rat \<Rightarrow> rat list" where
  "shift_push h v = tl h @ [v]"

definition track_energy :: "rat \<Rightarrow> engine_state \<Rightarrow> engine_state" where
  "track_energy avg st =
     (let a = audioState st;
          h = shift_push (energyHistory a) avg;
          recentAvg = sum_list (drop (length h - 3) h) / 3;
          olderAvg = sum_list (take 3 h) / 3
      in st\<lparr>audioState := a\<lparr>energyHistory := h, energyTrend := recentAvg - olderAvg\<rparr>\<rparr>)"

text \<open>
  The beat detector on one bass value at frame number \<open>fr\<close>: the updated detector and
  whether a beat fired. (The history always holds five values, so the mean never divides
  by zero.)
\<close>

definition detect_beat :: "rat \<Rightarrow> int \<Rightarrow> beat_detector \<Rightarrow> bool \<times> beat_detector" where
  "detect_beat bass fr bd =
     (let h = shift_push (history bd) bass;
          beatAvg = sum_list h / of_nat (length h);
          isBeat = (bass > beatAvg * (12 / 10) \<and> bass > threshold bd \<and> fr - lastBeat bd > 10)
      in (isBeat,
          if isBeat
          then bd\<lparr>history := h, lastBeat := fr, confidence := min 1 (confidence bd + 1 / 10)\<rparr>
          else bd\<lparr>history := h, confidence := max 0 (confidence bd - 1 / 100)\<rparr>))"

definition update_hue :: "rat bands \<Rightarrow> engine_state \<Rightarrow> engine_state" where
  "update_hue lv st =
     (if bassLevel lv > lowMidLevel lv \<and> bassLevel lv > highMidLevel lv
      then st\<lparr>hue := js_rem (hue st + 3 / 10 + bassLevel lv * (7 / 10)) 360\<rparr>
      else if lowMidLevel lv > highMidLevel lv
      then st\<lparr>hue := js_rem (hue st + 5 / 10 + lowMidLevel lv * 1) 360\<rparr>
      else st\<lparr>hue := js_rem (hue st + 7 / 10 + trebleLevel lv * (15 / 10)) 360\<rparr>)"

subsection \<open>Pattern transition\<close>

text \<open>The candidate list of a pattern change, before the current pattern is filtered out.\<close>

definition availablePatterns :: "performanceConfig \<Rightarrow> rat bands \<Rightarrow> pattern list" where
  "availablePatterns cfg lv =
     (let avail =
            (if enableAdvancedEffects cfg
             then [SPIRAL, FLOWER, STARBURST, NESTED_CIRCLES, FRACTAL_TREE, WAVE_PATTERN,
                   SYMMETRICAL_WEB]
             else [SPIRAL, FLOWER, STARBURST, NESTED_CIRCLES])
      in if bassLevel lv > 8 / 10 \<and> bassLevel lv > highMidLevel lv
         then [STARBURST, NESTED_CIRCLES, SYMMETRICAL_WEB]
         else if highMidLevel lv > 7 / 10 \<and> highMidLevel lv > bassLevel lv
         then [SPIRAL, WAVE_PATTERN, FLOWER]
         else if trebleLevel lv > 7 / 10
         then [FRACTAL_TREE, NESTED_CIRCLES, FLOWER]
         else avail)"

text \<open>
  Filtering out the current pattern and indexing with \<open>Math.floor(Math.random() * length)\<close>.
  For a random value in \<open>[0, 1)\<close> the index is within the list.
\<close>

definition choose_pattern :: "pattern list \<Rightarrow> pattern \<Rightarrow> rat \<Rightarrow> pattern" where
  "choose_pattern avail current r =
     (let filtered = filter (\<lambda>p. p \<noteq> current) avail
      in filtered ! nat \<lfloor>r * of_nat (length filtered)\<rfloor>)"

definition pattern_trigger :: "bool \<Rightarrow> rat bands \<Rightarrow> engine_state \<Rightarrow> bool" where
  "pattern_trigger bassImpact lv st =
     (let a = audioState st;
          energyChange = \<bar>energyTrend a\<bar> > 7 / 100;
          frequencyShift = (\<bar>bassLevel lv - trebleLevel lv\<bar> > 3 / 10 \<and>
                            \<bar>bassLevel lv - history (beatDetector a) ! 0\<bar> > 2 / 10);
          minPatternDuration = 180
      in (bassImpact \<or> (energyChange \<and> frequencyShift)) \<and>
         patternChangeCounter st > minPatternDuration \<and>
         patternTransition st = 1)"

definition start_pattern_change ::
  "performanceConfig \<Rightarrow> rat bands \<Rightarrow> rat \<Rightarrow> engine_state \<Rightarrow> engine_state" where
  "start_pattern_change cfg lv r st =
     st\<lparr>targetPattern := choose_pattern (availablePatterns cfg lv) (currentPattern st) r,
        patternTransition := 0,
        patternChangeCounter := 0\<rparr>"

definition advance_pattern :: "engine_state \<Rightarrow> engine_state" where
  "advance_pattern st =
     (if patternTransition st < 1 then
        (let t = min 1 (patternTransition st + 25 / 1000);
             st1 = st\<lparr>patternTransition := t\<rparr>
         in if t = 1 then st1\<lparr>currentPattern := targetPattern st1\<rparr> else st1)
      else st)"

subsection \<open>Symmetry transition\<close>

definition symmetry_trigger :: "bool \<Rightarrow> engine_state \<Rightarrow> bool" where
  "symmetry_trigger bassImpact st =
     (let a = audioState st
      in (bassImpact \<and> confidence (beatDetector a) > 6 / 10) \<or>
         (frame st - lastSymmetryChange st > 120 \<and> \<bar>energyTrend a\<bar> > 15 / 100))"

definition start_symmetry_change ::
  "performanceConfig \<Rightarrow> rat bands \<Rightarrow> rat \<Rightarrow> engine_state \<Rightarrow> engine_state" where
  "start_symmetry_change cfg lv r st =
     (let minSymmetry = 4;
          maxSymm = maxSymmetry cfg;
          target =
            (if bassLevel lv > 7 / 10 \<and> bassLevel lv > highMidLevel lv
             then minSymmetry + \<lfloor>r * 4\<rfloor> * 2
             else if lowMidLevel lv > 6 / 10
             then minSymmetry + 2 + \<lfloor>r * 4\<rfloor> * 2
             else minSymmetry + 4 + \<lfloor>r * of_int (maxSymm - 8) / 2\<rfloor> * 2)
      in st\<lparr>targetSymmetry := min maxSymm (max minSymmetry target),
            fractalDepth := 2 + \<lfloor>average lv * 2\<rfloor>,
            fractalScale := 5 / 10 + average lv * (3 / 10),
            lastSymmetryChange := frame st,
            symmetryTransition := 0\<rparr>)"

definition advance_symmetry :: "engine_state \<Rightarrow> engine_state" where
  "advance_symmetry st =
     (if symmetryTransition st < 1 then
        (let t = min 1 (symmetryTransition st + 2 / 100)
         in st\<lparr>symmetryTransition := t,
               symmetry := js_round (of_int (symmetry st) * (1 - t) +
                                     of_int (targetSymmetry st) * t)\<rparr>)
      else st)"

subsection \<open>Rendering with rotational symmetry\<close>

text \<open>
  One call of \<open>drawPattern\<close> inside a symmetry loop: the loop index \<open>i\<close>, the divisor
  \<open>actualSymmetry\<close> of the rotation angle, the pattern and the opacity in force.
\<close>

datatype draw_call = DrawPattern (rot_index: nat) (rot_of: int) (drawn: pattern) (alpha: rat)

text \<open>The loop \<open>for (let i = 0; i < actualSymmetry; i++)\<close>.\<close>

definition symmetry_loop :: "int \<Rightarrow> pattern \<Rightarrow> rat \<Rightarrow> draw_call list" where
  "symmetry_loop actualSymmetry p a =
     map (\<lambda>i. DrawPattern i actualSymmetry p a) [0 ..< nat actualSymmetry]"

definition render_patterns :: "performanceConfig \<Rightarrow> engine_state \<Rightarrow> draw_call list" where
  "render_patterns cfg st =
     (let actualSymmetry = min (symmetry st) (maxSymmetry cfg)
      in if patternTransition st < 1 then
           (let oldOpacity = 1 - patternTransition st
            in symmetry_loop actualSymmetry (currentPattern st) oldOpacity @
               symmetry_loop actualSymmetry (targetPattern st) (patternTransition st))
         else symmetry_loop actualSymmetry (currentPattern st) 1)"

text \<open>The number of copies the loops draw, \<open>actualSymmetry\<close> in the source.\<close>

definition actualSymmetry :: "performanceConfig \<Rightarrow> engine_state \<Rightarrow> int" where
  "actualSymmetry cfg st = min (symmetry st) (maxSymmetry cfg)"

subsection \<open>The draw loop\<close>

record frame_output =
  frameNo :: int
  isBeat :: bool
  bassImpact :: bool
  patternChanged :: bool
  symmetryChanged :: bool
  calls :: "draw_call list"

text \<open>
  The body of \<open>draw\<close> after the frame-skipping test, on finite band energies, section by
  section: beat detection, bass impact, pattern transition and symmetry transition. Each
  section returns the flag it computes together with the updated state.
\<close>

definition beat_stage :: "rat \<Rightarrow> engine_state \<Rightarrow> bool \<times> engine_state" where
  "beat_stage bass st =
     (let (beat, bd) = detect_beat bass (frame st) (beatDetector (audioState st))
      in (beat, st\<lparr>audioState := (audioState st)\<lparr>beatDetector := bd\<rparr>\<rparr>))"

definition impact_stage :: "rat \<Rightarrow> engine_state \<Rightarrow> bool \<times> engine_state" where
  "impact_stage bass st =
     (let impact = (bass > bassImpactThreshold (audioState st) \<and>
                    frame st - lastBassImpact (audioState st) > 30)
      in (impact,
          if impact then st\<lparr>audioState := (audioState st)\<lparr>lastBassImpact := frame st\<rparr>\<rparr>
          else st))"

definition pattern_stage ::
  "performanceConfig \<Rightarrow> rat bands \<Rightarrow> rat \<Rightarrow> bool \<Rightarrow> engine_state \<Rightarrow> bool \<times> engine_state"
  where
  "pattern_stage cfg lv r impact st =
     (let st1 = st\<lparr>patternChangeCounter := patternChangeCounter st + 1\<rparr>;
          pchange = pattern_trigger impact lv st1;
          st2 = (if pchange then start_pattern_change cfg lv r st1 else st1)
      in (pchange, advance_pattern st2))"

definition symmetry_stage ::
  "performanceConfig \<Rightarrow> rat bands \<Rightarrow> rat \<Rightarrow> bool \<Rightarrow> engine_state \<Rightarrow> bool \<times> engine_state"
  where
  "symmetry_stage cfg lv r impact st =
     (let schange = symmetry_trigger impact st;
          st1 = (if schange then start_symmetry_change cfg lv r st else st)
      in (schange, advance_symmetry st1))"

definition process ::
  "performanceConfig \<Rightarrow> frame_random \<Rightarrow> rat bands \<Rightarrow> engine_state \<Rightarrow>
   engine_state \<times> frame_output" where
  "process cfg rnd lv st =
     (let st1 = st\<lparr>frame := frame st + 1\<rparr>;
          st2 = track_energy (average lv) st1;
          (beat, st3) = beat_stage (bassLevel lv) st2;
          (impact, st4) = impact_stage (bassLevel lv) st3;
          st5 = update_hue lv st4;
          (pchange, st6) = pattern_stage cfg lv (randPattern rnd) impact st5;
          (schange, st7) = symmetry_stage cfg lv (randSymmetry rnd) impact st6
      in (st7,
          \<lparr>frameNo = frame st7, isBeat = beat, bassImpact = impact, patternChanged = pchange,
           symmetryChanged = schange, calls = render_patterns cfg st7\<rparr>))"

text \<open>
  One scheduled call of \<open>draw\<close>. A skipped frame only advances \<open>frameCounter\<close> and reads no
  samples. A processed frame reads the frequency magnitudes; the result is \<open>None\<close> when a
  band energy is not a finite number, which the rest of the model does not follow.
\<close>

definition draw ::
  "performanceConfig \<Rightarrow> frame_random \<Rightarrow> byte list \<Rightarrow> engine_state \<Rightarrow>
   (engine_state \<times> frame_output option) option" where
  "draw cfg rnd dataArray st =
     (let st0 = st\<lparr>frameCounter := frameCounter st + 1\<rparr>
      in if frameCounter st0 mod drawEveryNthFrame cfg \<noteq> 0 then Some (st0, None)
         else (case finite_bands (band_levels dataArray) of
                 None \<Rightarrow> None
               | Some lv \<Rightarrow> (let (st', out) = process cfg rnd lv st0 in Some (st', Some out))))"

text \<open>
  The render loop over a sequence of scheduled frames, each with its random values and the
  frequency magnitudes the analyser would return: the final state and the outputs of the
  processed frames, oldest first.
\<close>

fun run ::
  "performanceConfig \<Rightarrow> (frame_random \<times> byte list) list \<Rightarrow> engine_state \<Rightarrow>
   (engine_state \<times> frame_output list) option" where
  "run cfg [] st = Some (st, [])"
| "run cfg ((rnd, dataArray) # rest) st =
     (case draw cfg rnd dataArray st of
        None \<Rightarrow> None
      | Some (st1, out) \<Rightarrow>
          (case run cfg rest st1 of
             None \<Rightarrow> None
           | Some (st2, outs) \<Rightarrow>
               Some (st2, (case out of None \<Rightarrow> outs | Some out1 \<Rightarrow> out1 # outs))))"


subsection \<open>The fractal-tree generator\<close>

text \<open>
  The canvas operations of \<open>drawBranch\<close>: the stroke of a branch, with the depth and the length
  it is drawn at, and the filled leaf at the end of a final branch. End points and angles are
  left out.
\<close>

datatype fractal_op = BranchStroke int rat | LeafFill int

text \<open>
  \<open>drawBranch\<close> of the later revision. The recursion is on the depth, a number of the source
  that is only compared with 0 and 1 and decremented; the function is partial, and a call that
  does not return has the value \<open>None\<close>. The middle branch is taken when the energy is high.
\<close>

partial_function (option) drawBranch ::
  "rat bands \<Rightarrow> rat \<Rightarrow> rat \<Rightarrow> int \<Rightarrow> fractal_op list option" where
  "drawBranch lv scale len depth =
     (if depth = 0 then Some []
      else do {
        let newLength = len * scale;
        right \<leftarrow> drawBranch lv scale newLength (depth - 1);
        left \<leftarrow> drawBranch lv scale newLength (depth - 1);
        middle \<leftarrow>
          (if depth > 1 \<and> (bassLevel lv > 6 / 10 \<or> lowMidLevel lv > 7 / 10)
           then drawBranch lv scale (newLength * (8 / 10)) (depth - 1)
           else Some []);
        Some (BranchStroke depth len # (if depth = 1 then [LeafFill depth] else []) @
              right @ left @ middle)
      })"

definition drawFractalTree :: "rat bands \<Rightarrow> int \<Rightarrow> rat \<Rightarrow> fractal_op list option" where
  "drawFractalTree lv depth0 scale =
     drawBranch lv scale (70 + bassLevel lv * 70 + lowMidLevel lv * 30) depth0"

text \<open>
  \<open>drawBranch\<close> of the earlier revision, where the middle branch is taken when
  \<open>Math.random() < 0.5\<close>. The random source is a sequence \<open>rnd\<close> and the number \<open>k\<close> of values
  already consumed, which the function returns updated.
\<close>

partial_function (option) drawBranch_v1 ::
  "(nat \<Rightarrow> rat) \<Rightarrow> rat \<Rightarrow> rat \<Rightarrow> int \<Rightarrow> nat \<Rightarrow> (fractal_op list \<times> nat) option" where
  "drawBranch_v1 rnd scale len depth k =
     (if depth = 0 then Some ([], k)
      else do {
        let newLength = len * scale;
        (right, k1) \<leftarrow> drawBranch_v1 rnd scale newLength (depth - 1) k;
        (left, k2) \<leftarrow> drawBranch_v1 rnd scale newLength (depth - 1) k1;
        (middle, k3) \<leftarrow>
          (if depth > 1
           then (if rnd k2 < 1 / 2
                 then drawBranch_v1 rnd scale (newLength * (8 / 10)) (depth - 1) (Suc k2)
                 else Some ([], Suc k2))
           else Some ([], k2));
        Some (BranchStroke depth len # (if depth = 1 then [LeafFill depth] else []) @
              right @ left @ middle, k3)
      })"

definition drawFractalTree_v1 ::
  "(nat \<Rightarrow> rat) \<Rightarrow> rat \<Rightarrow> int \<Rightarrow> rat \<Rightarrow> nat \<Rightarrow> (fractal_op list \<times> nat) option" where
  "drawFractalTree_v1 rnd bass depth0 scale k =
     drawBranch_v1 rnd scale (100 + bass * 100) depth0 k"

subsection \<open>The hue accumulator of the waveform and frequency-bar visualizers\<close>

text \<open>The update \<open>hue = (hue + 0.5) % 360\<close> made once per frame, and \<open>n\<close> frames of it from 0.\<close>

definition hue_step :: "rat \<Rightarrow> rat" where
  "hue_step h = js_rem (h + 5 / 10) 360"

definition hue_after :: "nat \<Rightarrow> rat" where
  "hue_after n = (hue_step ^^ n) 0"

subsection \<open>State invariants of the transitions\<close>

text \<open>
  The symmetry variables of a reachable state, for a bound \<open>M\<close> of the profile, and the
  pattern variables of a reachable state. Both are shown to hold at every frame.
\<close>

definition sym_inv :: "int \<Rightarrow> engine_state \<Rightarrow> bool" where
  "sym_inv M st \<longleftrightarrow>
     4 \<le> symmetry st \<and> symmetry st \<le> max 8 M \<and>
     4 \<le> targetSymmetry st \<and> targetSymmetry st \<le> max 8 M \<and> even (targetSymmetry st) \<and>
     0 \<le> symmetryTransition st \<and> symmetryTransition st \<le> 1 \<and>
     (symmetryTransition st = 1 \<longrightarrow> symmetry st = targetSymmetry st)"

definition pat_inv :: "engine_state \<Rightarrow> bool" where
  "pat_inv st \<longleftrightarrow>
     (\<exists>k\<le>40. patternTransition st = of_nat k / 40) \<and>
     (patternTransition st = 1 \<longrightarrow> currentPattern st = targetPattern st)"

definition conf_inv :: "engine_state \<Rightarrow> bool" where
  "conf_inv st \<longleftrightarrow>
     0 \<le> confidence (beatDetector (audioState st)) \<and>
     confidence (beatDetector (audioState st)) \<le> 1"

text \<open>
  The beat detector after \<open>frame\<close> processed frames of full-scale bass from the initial state:
  it has not fired, and its history holds as many ones as frames were processed, up to five.
\<close>

definition full_bass_inv :: "engine_state \<Rightarrow> bool" where
  "full_bass_inv st \<longleftrightarrow>
     (let bd = beatDetector (audioState st)
      in lastBeat bd = 0 \<and> confidence bd = 0 \<and> threshold bd = 7 / 10 \<and>
         (\<exists>m\<le>5. int m = min 5 (frame st) \<and> history bd = replicate (5 - m) 0 @ replicate m 1))"

subsection \<open>Test signals\<close>

text \<open>
  Frequency-magnitude arrays of 128 bins (an analyser with \<open>fftSize = 256\<close>) used in concrete
  runs: silence, full scale in every bin, full scale in the ten bass bins only, and a frame
  with strong bass below a stronger high-mid band.
\<close>

definition silent :: "byte list" where
  "silent = replicate 128 0"

definition loud :: "byte list" where
  "loud = replicate 128 255"

definition bass_only :: "byte list" where
  "bass_only = replicate 10 255 @ replicate 118 0"

definition mid_heavy :: "byte list" where
  "mid_heavy = replicate 10 230 @ replicate 30 0 @ replicate 60 255 @ replicate 28 0"

definition rand0 :: frame_random where
  "rand0 = \<lparr>randPattern = 0, randSymmetry = 0\<rparr>"

definition rand_last :: frame_random where
  "rand_last = \<lparr>randPattern = 9 / 10, randSymmetry = 0\<rparr>"

definition rand_half :: frame_random where
  "rand_half = \<lparr>randPattern = 1 / 2, randSymmetry = 0\<rparr>"

text \<open>
  Runs of scheduled frames. Under the mobile profile every third scheduled frame is processed,
  so \<open>3 * k\<close> scheduled frames are \<open>k\<close> processed ones; a skipped frame reads no samples.
\<close>

definition quiet_frames :: "nat \<Rightarrow> (frame_random \<times> byte list) list" where
  "quiet_frames n = replicate n (rand0, silent)"

definition symmetry_scenario :: "(frame_random \<times> byte list) list" where
  "symmetry_scenario = quiet_frames 360 @ replicate 3 (rand0, loud) @ quiet_frames 18"

definition symmetry_settled_scenario :: "(frame_random \<times> byte list) list" where
  "symmetry_settled_scenario = quiet_frames 360 @ replicate 3 (rand0, loud) @ quiet_frames 147"

definition two_beats_scenario :: "(frame_random \<times> byte list) list" where
  "two_beats_scenario =
     quiet_frames 20 @ replicate 2 (rand0, bass_only) @ quiet_frames 20 @
     replicate 2 (rand0, bass_only)"

text \<open>
  The state of the mobile-profile engine after 542 scheduled frames of silence: 180 frames
  have been processed and the next scheduled frame is processed too.
\<close>

definition idle_state :: engine_state where
  "idle_state =
     \<lparr>audioState =
        \<lparr>lastBassImpact = 0, bassImpactThreshold = 8 / 10, midTransition = 0,
         highTransition = 0, energyHistory = replicate 8 0, energyTrend = 0,
         beatDetector = \<lparr>history = replicate 5 0, threshold = 7 / 10, lastBeat = 0,
                          confidence = 0\<rparr>\<rparr>,
      hue = 126, frame = 180, symmetry = 8, lastSymmetryChange = 0, targetSymmetry = 8,
      symmetryTransition = 1, fractalDepth = 1, fractalScale = 7 / 10,
      currentPattern = FLOWER, targetPattern = FLOWER, patternTransition = 1,
      patternChangeCounter = 180, frameCounter = 542\<rparr>"

text \<open>The frames in which every bass bin is at full scale.\<close>

definition bass_bins_full :: "byte list \<Rightarrow> bool" where
  "bass_bins_full dataArray \<longleftrightarrow> dataArray \<noteq> [] \<and> list_all (\<lambda>v. v = 255) (take 10 dataArray)"

subsection \<open>Evaluation forms\<close>

text \<open>
  The same computations written as chains of function applications, which the simplifier
  evaluates from the inside out on concrete inputs. They are proved equal to \<open>process\<close>,
  \<open>draw\<close> and \<open>run\<close> and are used only to compute concrete runs.
\<close>

fun process_result ::
  "performanceConfig \<Rightarrow> bool \<Rightarrow> bool \<Rightarrow> bool \<Rightarrow> bool \<times> engine_state \<Rightarrow>
   engine_state \<times> frame_output" where
  "process_result cfg beat impact pchange (schange, st7) =
     (st7,
      \<lparr>frameNo = frame st7, isBeat = beat, bassImpact = impact, patternChanged = pchange,
       symmetryChanged = schange, calls = render_patterns cfg st7\<rparr>)"

fun process_symmetry ::
  "performanceConfig \<Rightarrow> frame_random \<Rightarrow> rat bands \<Rightarrow> bool \<Rightarrow> bool \<Rightarrow> bool \<times> engine_state \<Rightarrow>
   engine_state \<times> frame_output" where
  "process_symmetry cfg rnd lv beat impact (pchange, st6) =
     process_result cfg beat impact pchange
       (symmetry_stage cfg lv (randSymmetry rnd) impact st6)"

fun process_pattern ::
  "performanceConfig \<Rightarrow> frame_random \<Rightarrow> rat bands \<Rightarrow> bool \<Rightarrow> bool \<times> engine_state \<Rightarrow>
   engine_state \<times> frame_output" where
  "process_pattern cfg rnd lv beat (impact, st4) =
     process_symmetry cfg rnd lv beat impact
       (pattern_stage cfg lv (randPattern rnd) impact (update_hue lv st4))"

fun process_impact ::
  "performanceConfig \<Rightarrow> frame_random \<Rightarrow> rat bands \<Rightarrow> bool \<times> engine_state \<Rightarrow>
   engine_state \<times> frame_output" where
  "process_impact cfg rnd lv (beat, st3) =
     process_pattern cfg rnd lv beat (impact_stage (bassLevel lv) st3)"

fun draw_result :: "engine_state \<times> frame_output \<Rightarrow> (engine_state \<times> frame_output option) option"
  where
  "draw_result (st', out) = Some (st', Some out)"

fun draw_levels ::
  "performanceConfig \<Rightarrow> frame_random \<Rightarrow> engine_state \<Rightarrow> rat bands option \<Rightarrow>
   (engine_state \<times> frame_output option) option" where
  "draw_levels cfg rnd st0 None = None"
| "draw_levels cfg rnd st0 (Some lv) =
     draw_result
       (process_impact cfg rnd lv
          (beat_stage (bassLevel lv)
             (track_energy (average lv) (st0\<lparr>frame := frame st0 + 1\<rparr>))))"

text \<open>The render loop with the outputs accumulated in reverse.\<close>

fun run_acc ::
  "performanceConfig \<Rightarrow> (frame_random \<times> byte list) list \<Rightarrow> frame_output list \<Rightarrow>
   (engine_state \<times> frame_output option) option \<Rightarrow> (engine_state \<times> frame_output list) option"
  where
  "run_acc cfg ins acc None = None"
| "run_acc cfg [] acc (Some (st, None)) = Some (st, rev acc)"
| "run_acc cfg [] acc (Some (st, Some out)) = Some (st, rev (out # acc))"
| "run_acc cfg ((rnd, d) # rest) acc (Some (st, None)) =
     run_acc cfg rest acc (draw cfg rnd d st)"
| "run_acc cfg ((rnd, d) # rest) acc (Some (st, Some out)) =
     run_acc cfg rest (out # acc) (draw cfg rnd d st)"

section \<open>Evaluation of numerals\<close>

lemma floor_rat_numeral: "\<lfloor>numeral a / numeral b :: rat\<rfloor> = numeral a div numeral b"
  using floor_divide_of_int_eq [of "numeral a" "numeral b", where 'a = rat] by simp

lemma floor_rat_neg_numeral:
  "\<lfloor>- (numeral a / numeral b) :: rat\<rfloor> = - numeral a div numeral b"
  using floor_divide_of_int_eq [of "- numeral a" "numeral b", where 'a = rat] by simp

lemma replicate_numeral: "replicate (numeral k) x = x # replicate (pred_numeral k) x"
  by (simp add: numeral_eq_Suc)

section \<open>Band energies\<close>

lemma unat_byte_le: "unat (w :: byte) \<le> 255"
  using unsigned_less [of w, where 'a = nat] by simp

lemma sum_bin_fields:
  "totalSum (sum_bin d i s) = totalSum s + unat (d ! i)"
  "bassSum (sum_bin d i s) = bassSum s + (if i < bassRange (length d) then unat (d ! i) else 0)"
  "lowMidSum (sum_bin d i s) = lowMidSum s +
     (if bassRange (length d) \<le> i \<and> i < lowMidRange (length d) then unat (d ! i) else 0)"
  "highMidSum (sum_bin d i s) = highMidSum s +
     (if lowMidRange (length d) \<le> i \<and> i < highMidRange (length d) then unat (d ! i) else 0)"
  "trebleSum (sum_bin d i s) = trebleSum s +
     (if highMidRange (length d) \<le> i \<and> i < trebleRange (length d) then unat (d ! i) else 0)"
  by (simp_all add: sum_bin_def Let_def)

lemma fold_sum_bin:
  "totalSum (fold (sum_bin d) [0 ..< k] zero_sums) = (\<Sum>i<k. unat (d ! i))"
  "bassSum (fold (sum_bin d) [0 ..< k] zero_sums) =
     (\<Sum>i<k. if 0 \<le> i \<and> i < bassRange (length d) then unat (d ! i) else 0)"
  "lowMidSum (fold (sum_bin d) [0 ..< k] zero_sums) =
     (\<Sum>i<k. if bassRange (length d) \<le> i \<and> i < lowMidRange (length d)
                     then unat (d ! i) else 0)"
  "highMidSum (fold (sum_bin d) [0 ..< k] zero_sums) =
     (\<Sum>i<k. if lowMidRange (length d) \<le> i \<and> i < highMidRange (length d)
                     then unat (d ! i) else 0)"
  "trebleSum (fold (sum_bin d) [0 ..< k] zero_sums) =
     (\<Sum>i<k. if highMidRange (length d) \<le> i \<and> i < trebleRange (length d)
                     then unat (d ! i) else 0)"
  by (induction k; simp add: zero_sums_def sum_bin_fields)+

lemma band_sum_interval:
  "b \<le> (k::nat) \<Longrightarrow> (\<Sum>i<k. if a \<le> i \<and> i < b then f i else (0::nat)) = sum f {a ..< b}"
proof -
  assume bk: "b \<le> k"
  have "(\<Sum>i<k. if a \<le> i \<and> i < b then f i else 0) = sum f ({..<k} \<inter> {i. a \<le> i \<and> i < b})"
    by (subst sum.If_cases) simp_all
  also have "{..<k} \<inter> {i. a \<le> i \<and> i < b} = {a ..< b}"
    using bk by auto
  finally show ?thesis .
qed

lemma interval_sum_bound:
  "sum (\<lambda>i. unat ((d :: byte list) ! i)) {a ..< b} \<le> (b - a) * 255"
  using sum_bounded_above [of "{a ..< b}" "\<lambda>i. unat (d ! i)" 255]
  by (simp add: unat_byte_le)

lemma band_sum_bound:
  "b \<le> (k::nat) \<Longrightarrow>
   (\<Sum>i<k. if a \<le> i \<and> i < b then unat ((d :: byte list) ! i) else 0) \<le> (b - a) * 255"
  by (simp add: band_sum_interval interval_sum_bound)

lemma sum_bins_bounds:
  "totalSum (sum_bins d) \<le> min 200 (length d) * 255"
  "bassSum (sum_bins d) \<le> bassRange (length d) * 255"
  "lowMidSum (sum_bins d) \<le> (lowMidRange (length d) - bassRange (length d)) * 255"
  "highMidSum (sum_bins d) \<le> (highMidRange (length d) - lowMidRange (length d)) * 255"
  "trebleSum (sum_bins d) \<le> (trebleRange (length d) - highMidRange (length d)) * 255"
proof -
  show "totalSum (sum_bins d) \<le> min 200 (length d) * 255"
    using interval_sum_bound [of d 0 "min 200 (length d)"]
    by (simp add: sum_bins_def fold_sum_bin lessThan_atLeast0)
  show "bassSum (sum_bins d) \<le> bassRange (length d) * 255"
    unfolding sum_bins_def fold_sum_bin
    using band_sum_bound [of "bassRange (length d)" "min 200 (length d)" 0 d]
    by (simp add: bassRange_def)
  show "lowMidSum (sum_bins d) \<le> (lowMidRange (length d) - bassRange (length d)) * 255"
    unfolding sum_bins_def fold_sum_bin
    by (rule band_sum_bound) (simp add: lowMidRange_def)
  show "highMidSum (sum_bins d) \<le> (highMidRange (length d) - lowMidRange (length d)) * 255"
    unfolding sum_bins_def fold_sum_bin
    by (rule band_sum_bound) (simp add: highMidRange_def)
  show "trebleSum (sum_bins d) \<le> (trebleRange (length d) - highMidRange (length d)) * 255"
    unfolding sum_bins_def fold_sum_bin
    by (rule band_sum_bound) (simp add: trebleRange_def)
qed

lemma sum_nth_take:
  "k \<le> length xs \<Longrightarrow> (\<Sum>i<k. f (xs ! i)) = sum_list (map f (take k xs))"
  for f :: "'a \<Rightarrow> nat"
  by (induction k) (simp_all add: take_Suc_conv_app_nth)

lemma totalSum_take:
  "totalSum (sum_bins d) = sum_list (map unat (take (min 200 (length d)) d))"
  by (simp add: sum_bins_def fold_sum_bin sum_nth_take)

lemma level_in_unit:
  assumes "s \<le> w * 255" and "w \<le> m" and "0 < m"
  shows "in_unit (js_div (js_div (js_of_nat s) (js_of_nat m)) (Num 255))"
proof -
  have "s \<le> m * 255"
    using assms(1,2) by (meson le_trans mult_le_mono1)
  then have "(of_nat s :: rat) \<le> of_nat m * 255"
    by (metis of_nat_le_iff of_nat_mult of_nat_numeral)
  then show ?thesis
    using assms(3) by (simp add: js_of_nat_def)
qed

lemma band_sum_slice:
  "(\<Sum>i<min 200 (length d). if min a (length d) \<le> i \<and> i < min (a + w) (length d)
        then unat ((d :: byte list) ! i) else 0) =
   sum_list (map unat (take w (drop a d)))" if "a + w \<le> 200"
proof -
  let ?n = "length d"
  have "(\<Sum>i<min 200 ?n. if min a ?n \<le> i \<and> i < min (a + w) ?n then unat (d ! i) else 0) =
        sum (\<lambda>i. unat (d ! i)) {min a ?n ..< min (a + w) ?n}"
    using that by (intro band_sum_interval) simp
  also have "\<dots> = (\<Sum>j<min (a + w) ?n - min a ?n. unat (d ! (min a ?n + j)))"
    by (rule sum.reindex_bij_witness [where i = "\<lambda>j. min a ?n + j" and j = "\<lambda>i. i - min a ?n"]) auto
  also have "\<dots> = (\<Sum>j<min w (?n - a). unat (drop a d ! j))"
    by (rule sum.cong) (auto simp: min_def split: if_splits)
  also have "\<dots> = sum_list (map unat (take (min w (?n - a)) (drop a d)))"
    by (rule sum_nth_take) simp
  also have "take (min w (?n - a)) (drop a d) = take w (drop a d)"
    by (simp add: min_def)
  finally show ?thesis .
qed

lemma sum_bins_slices:
  "sum_bins d =
     \<lparr>bassSum = sum_list (map unat (take 10 d)),
      lowMidSum = sum_list (map unat (take 30 (drop 10 d))),
      highMidSum = sum_list (map unat (take 60 (drop 40 d))),
      trebleSum = sum_list (map unat (take 100 (drop 100 d))),
      totalSum = sum_list (map unat (take 200 d))\<rparr>"
proof -
  have b: "bassSum (sum_bins d) = sum_list (map unat (take 10 d))"
    using band_sum_slice [of 0 10 d] by (simp add: sum_bins_def fold_sum_bin bassRange_def)
  have l: "lowMidSum (sum_bins d) = sum_list (map unat (take 30 (drop 10 d)))"
    using band_sum_slice [of 10 30 d]
    by (simp add: sum_bins_def fold_sum_bin bassRange_def lowMidRange_def)
  have h: "highMidSum (sum_bins d) = sum_list (map unat (take 60 (drop 40 d)))"
    using band_sum_slice [of 40 60 d]
    by (simp add: sum_bins_def fold_sum_bin highMidRange_def lowMidRange_def)
  have t: "trebleSum (sum_bins d) = sum_list (map unat (take 100 (drop 100 d)))"
    using band_sum_slice [of 100 100 d]
    by (simp add: sum_bins_def fold_sum_bin highMidRange_def trebleRange_def)
  have a: "totalSum (sum_bins d) = sum_list (map unat (take 200 d))"
    by (simp add: totalSum_take min_def)
  show ?thesis
    by (rule band_sums.equality) (simp_all add: b l h t a)
qed

lemma band_levels_nonempty:
  assumes "dataArray \<noteq> []"
  shows "in_unit (average (band_levels dataArray)) \<and>
         in_unit (bassLevel (band_levels dataArray)) \<and>
         in_unit (lowMidLevel (band_levels dataArray)) \<and>
         in_unit (highMidLevel (band_levels dataArray)) \<and>
         in_unit (trebleLevel (band_levels dataArray)) \<and>
         average (band_levels dataArray) =
           Num (mean_first (min 200 (length dataArray)) dataArray / 255)"
proof -
  let ?n = "length dataArray"
  have n: "0 < ?n" using assms by simp
  have a: "in_unit (average (band_levels dataArray))"
    using level_in_unit [OF sum_bins_bounds(1) le_refl, of dataArray] n
    by (simp add: band_levels_def Let_def)
  have b: "in_unit (bassLevel (band_levels dataArray))"
    using level_in_unit [OF sum_bins_bounds(2) le_refl, of dataArray] n
    by (simp add: band_levels_def Let_def bassRange_def)
  have l: "in_unit (lowMidLevel (band_levels dataArray))"
    using level_in_unit [OF sum_bins_bounds(3), of dataArray "max 1 (lowMidRange ?n - bassRange ?n)"]
    by (simp add: band_levels_def Let_def)
  have h: "in_unit (highMidLevel (band_levels dataArray))"
    using level_in_unit [OF sum_bins_bounds(4), of dataArray "max 1 (highMidRange ?n - lowMidRange ?n)"]
    by (simp add: band_levels_def Let_def)
  have t: "in_unit (trebleLevel (band_levels dataArray))"
    using level_in_unit [OF sum_bins_bounds(5), of dataArray "max 1 (trebleRange ?n - highMidRange ?n)"]
    by (simp add: band_levels_def Let_def)
  have m: "average (band_levels dataArray) = Num (mean_first (min 200 ?n) dataArray / 255)"
    using n by (simp add: band_levels_def Let_def js_of_nat_def mean_first_def totalSum_take)
  from a b l h t m show ?thesis by simp
qed

subsection \<open>What each stage leaves unchanged\<close>

lemma track_energy_keeps [simp]:
  "frame (track_energy a st) = frame st"
  "symmetry (track_energy a st) = symmetry st"
  "targetSymmetry (track_energy a st) = targetSymmetry st"
  "symmetryTransition (track_energy a st) = symmetryTransition st"
  "lastSymmetryChange (track_energy a st) = lastSymmetryChange st"
  "currentPattern (track_energy a st) = currentPattern st"
  "targetPattern (track_energy a st) = targetPattern st"
  "patternTransition (track_energy a st) = patternTransition st"
  "patternChangeCounter (track_energy a st) = patternChangeCounter st"
  "frameCounter (track_energy a st) = frameCounter st"
  "beatDetector (audioState (track_energy a st)) = beatDetector (audioState st)"
  "lastBassImpact (audioState (track_energy a st)) = lastBassImpact (audioState st)"
  by (simp_all add: track_energy_def Let_def)

lemma update_hue_keeps [simp]:
  "frame (update_hue lv st) = frame st"
  "audioState (update_hue lv st) = audioState st"
  "symmetry (update_hue lv st) = symmetry st"
  "targetSymmetry (update_hue lv st) = targetSymmetry st"
  "symmetryTransition (update_hue lv st) = symmetryTransition st"
  "lastSymmetryChange (update_hue lv st) = lastSymmetryChange st"
  "currentPattern (update_hue lv st) = currentPattern st"
  "targetPattern (update_hue lv st) = targetPattern st"
  "patternTransition (update_hue lv st) = patternTransition st"
  "patternChangeCounter (update_hue lv st) = patternChangeCounter st"
  "frameCounter (update_hue lv st) = frameCounter st"
  by (simp_all add: update_hue_def)

lemma start_pattern_change_keeps [simp]:
  "frame (start_pattern_change cfg lv r st) = frame st"
  "audioState (start_pattern_change cfg lv r st) = audioState st"
  "symmetry (start_pattern_change cfg lv r st) = symmetry st"
  "targetSymmetry (start_pattern_change cfg lv r st) = targetSymmetry st"
  "symmetryTransition (start_pattern_change cfg lv r st) = symmetryTransition st"
  "lastSymmetryChange (start_pattern_change cfg lv r st) = lastSymmetryChange st"
  "currentPattern (start_pattern_change cfg lv r st) = currentPattern st"
  "frameCounter (start_pattern_change cfg lv r st) = frameCounter st"
  by (simp_all add: start_pattern_change_def)

lemma advance_pattern_keeps [simp]:
  "frame (advance_pattern st) = frame st"
  "audioState (advance_pattern st) = audioState st"
  "symmetry (advance_pattern st) = symmetry st"
  "targetSymmetry (advance_pattern st) = targetSymmetry st"
  "symmetryTransition (advance_pattern st) = symmetryTransition st"
  "lastSymmetryChange (advance_pattern st) = lastSymmetryChange st"
  "targetPattern (advance_pattern st) = targetPattern st"
  "patternChangeCounter (advance_pattern st) = patternChangeCounter st"
  "frameCounter (advance_pattern st) = frameCounter st"
  by (simp_all add: advance_pattern_def Let_def)

lemma start_symmetry_change_keeps [simp]:
  "frame (start_symmetry_change cfg lv r st) = frame st"
  "audioState (start_symmetry_change cfg lv r st) = audioState st"
  "symmetry (start_symmetry_change cfg lv r st) = symmetry st"
  "currentPattern (start_symmetry_change cfg lv r st) = currentPattern st"
  "targetPattern (start_symmetry_change cfg lv r st) = targetPattern st"
  "patternTransition (start_symmetry_change cfg lv r st) = patternTransition st"
  "patternChangeCounter (start_symmetry_change cfg lv r st) = patternChangeCounter st"
  "frameCounter (start_symmetry_change cfg lv r st) = frameCounter st"
  by (simp_all add: start_symmetry_change_def Let_def)

lemma advance_symmetry_keeps [simp]:
  "frame (advance_symmetry st) = frame st"
  "audioState (advance_symmetry st) = audioState st"
  "targetSymmetry (advance_symmetry st) = targetSymmetry st"
  "lastSymmetryChange (advance_symmetry st) = lastSymmetryChange st"
  "currentPattern (advance_symmetry st) = currentPattern st"
  "targetPattern (advance_symmetry st) = targetPattern st"
  "patternTransition (advance_symmetry st) = patternTransition st"
  "patternChangeCounter (advance_symmetry st) = patternChangeCounter st"
  "frameCounter (advance_symmetry st) = frameCounter st"
  by (simp_all add: advance_symmetry_def Let_def)


lemma beat_stage_keeps [simp]:
  "frame (snd (beat_stage b st)) = frame st"
  "symmetry (snd (beat_stage b st)) = symmetry st"
  "targetSymmetry (snd (beat_stage b st)) = targetSymmetry st"
  "symmetryTransition (snd (beat_stage b st)) = symmetryTransition st"
  "lastSymmetryChange (snd (beat_stage b st)) = lastSymmetryChange st"
  "currentPattern (snd (beat_stage b st)) = currentPattern st"
  "targetPattern (snd (beat_stage b st)) = targetPattern st"
  "patternTransition (snd (beat_stage b st)) = patternTransition st"
  "patternChangeCounter (snd (beat_stage b st)) = patternChangeCounter st"
  "frameCounter (snd (beat_stage b st)) = frameCounter st"
  by (simp_all add: beat_stage_def split_beta)

lemma impact_stage_keeps [simp]:
  "frame (snd (impact_stage b st)) = frame st"
  "beatDetector (audioState (snd (impact_stage b st))) = beatDetector (audioState st)"
  "symmetry (snd (impact_stage b st)) = symmetry st"
  "targetSymmetry (snd (impact_stage b st)) = targetSymmetry st"
  "symmetryTransition (snd (impact_stage b st)) = symmetryTransition st"
  "lastSymmetryChange (snd (impact_stage b st)) = lastSymmetryChange st"
  "currentPattern (snd (impact_stage b st)) = currentPattern st"
  "targetPattern (snd (impact_stage b st)) = targetPattern st"
  "patternTransition (snd (impact_stage b st)) = patternTransition st"
  "patternChangeCounter (snd (impact_stage b st)) = patternChangeCounter st"
  "frameCounter (snd (impact_stage b st)) = frameCounter st"
  by (simp_all add: impact_stage_def Let_def)

lemma pattern_stage_keeps [simp]:
  "frame (snd (pattern_stage cfg lv r i st)) = frame st"
  "audioState (snd (pattern_stage cfg lv r i st)) = audioState st"
  "symmetry (snd (pattern_stage cfg lv r i st)) = symmetry st"
  "targetSymmetry (snd (pattern_stage cfg lv r i st)) = targetSymmetry st"
  "symmetryTransition (snd (pattern_stage cfg lv r i st)) = symmetryTransition st"
  "lastSymmetryChange (snd (pattern_stage cfg lv r i st)) = lastSymmetryChange st"
  "frameCounter (snd (pattern_stage cfg lv r i st)) = frameCounter st"
  by (simp_all add: pattern_stage_def Let_def)

lemma symmetry_stage_keeps [simp]:
  "frame (snd (symmetry_stage cfg lv r i st)) = frame st"
  "audioState (snd (symmetry_stage cfg lv r i st)) = audioState st"
  "currentPattern (snd (symmetry_stage cfg lv r i st)) = currentPattern st"
  "targetPattern (snd (symmetry_stage cfg lv r i st)) = targetPattern st"
  "patternTransition (snd (symmetry_stage cfg lv r i st)) = patternTransition st"
  "patternChangeCounter (snd (symmetry_stage cfg lv r i st)) = patternChangeCounter st"
  "frameCounter (snd (symmetry_stage cfg lv r i st)) = frameCounter st"
  by (simp_all add: symmetry_stage_def Let_def)

lemma process_frame [simp]: "frame (fst (process cfg rnd lv st)) = frame st + 1"
  by (simp add: process_def Let_def split_beta)

lemma process_frameCounter [simp]:
  "frameCounter (fst (process cfg rnd lv st)) = frameCounter st"
  by (simp add: process_def Let_def split_beta)


subsection \<open>Symmetry invariant\<close>

lemma sym_inv_cong:
  "sym_inv M st \<Longrightarrow> symmetry st' = symmetry st \<Longrightarrow> targetSymmetry st' = targetSymmetry st \<Longrightarrow>
   symmetryTransition st' = symmetryTransition st \<Longrightarrow> sym_inv M st'"
  by (simp add: sym_inv_def)

lemma js_round_of_int [simp]: "js_round (of_int z) = z"
  by (simp add: js_round_def) linarith

lemma js_round_between:
  assumes "of_int lo \<le> x" and "x \<le> of_int hi"
  shows "lo \<le> js_round x \<and> js_round x \<le> hi"
proof -
  have "of_int lo \<le> x + 1 / 2" using assms(1) by simp
  then have l: "lo \<le> \<lfloor>x + 1 / 2\<rfloor>" by (simp add: le_floor_iff)
  have "x + 1 / 2 < of_int (hi + 1)" using assms(2) by simp
  then have "\<lfloor>x + 1 / 2\<rfloor> < hi + 1" by (simp only: floor_less_iff)
  with l show ?thesis by (simp add: js_round_def)
qed

lemma convex_between:
  fixes a b lo hi t :: rat
  assumes "lo \<le> a" "a \<le> hi" "lo \<le> b" "b \<le> hi" "0 \<le> t" "t \<le> 1"
  shows "lo \<le> a * (1 - t) + b * t \<and> a * (1 - t) + b * t \<le> hi"
proof -
  have 1: "lo * (1 - t) \<le> a * (1 - t)" "a * (1 - t) \<le> hi * (1 - t)"
    using assms by (simp_all add: mult_right_mono)
  have 2: "lo * t \<le> b * t" "b * t \<le> hi * t"
    using assms by (simp_all add: mult_right_mono)
  have "lo = lo * (1 - t) + lo * t" "hi = hi * (1 - t) + hi * t"
    by (simp_all add: algebra_simps)
  with 1 2 show ?thesis by linarith
qed

lemma advance_symmetry_inv:
  assumes "sym_inv M st"
  shows "sym_inv M (advance_symmetry st)"
proof (cases "symmetryTransition st < 1")
  case False
  then show ?thesis using assms by (simp add: advance_symmetry_def)
next
  case True
  define t where "t = min 1 (symmetryTransition st + 2 / 100)"
  have t: "0 \<le> t" "t \<le> 1"
    using assms by (simp_all add: t_def sym_inv_def)
  have st': "advance_symmetry st =
      st\<lparr>symmetryTransition := t,
         symmetry := js_round (of_int (symmetry st) * (1 - t) + of_int (targetSymmetry st) * t)\<rparr>"
    using True by (simp add: advance_symmetry_def Let_def t_def)
  let ?x = "of_int (symmetry st) * (1 - t) + of_int (targetSymmetry st) * t :: rat"
  have "of_int 4 \<le> ?x \<and> ?x \<le> of_int (max 8 M)"
    using assms t unfolding sym_inv_def
    by (intro convex_between) (simp_all only: of_int_le_iff)
  then have "4 \<le> js_round ?x \<and> js_round ?x \<le> max 8 M"
    using js_round_between [of 4 ?x "max 8 M"] by blast
  then have b: "4 \<le> symmetry (advance_symmetry st) \<and> symmetry (advance_symmetry st) \<le> max 8 M"
    unfolding st' by simp
  have "t = 1 \<Longrightarrow> symmetry (advance_symmetry st) = targetSymmetry st"
    unfolding st' by simp
  with b t assms show ?thesis
    by (simp add: sym_inv_def st')
qed

lemma start_symmetry_change_inv:
  assumes "sym_inv M st" and "4 \<le> maxSymmetry cfg" and "even (maxSymmetry cfg)"
    and "maxSymmetry cfg \<le> max 8 M"
  shows "sym_inv M (start_symmetry_change cfg lv r st)"
    and "targetSymmetry (start_symmetry_change cfg lv r st) \<le> maxSymmetry cfg"
  using assms by (auto simp add: sym_inv_def start_symmetry_change_def Let_def min_def max_def)

lemma symmetry_stage_inv:
  assumes "sym_inv M st" and "4 \<le> maxSymmetry cfg" and "even (maxSymmetry cfg)"
    and "maxSymmetry cfg \<le> max 8 M"
  shows "sym_inv M (snd (symmetry_stage cfg lv r i st))"
  using assms
  by (simp add: symmetry_stage_def Let_def advance_symmetry_inv start_symmetry_change_inv)

lemma process_sym_inv:
  assumes "sym_inv M st" and "4 \<le> maxSymmetry cfg" and "even (maxSymmetry cfg)"
    and "maxSymmetry cfg \<le> max 8 M"
  shows "sym_inv M (fst (process cfg rnd lv st))"
proof -
  have "sym_inv M (snd (symmetry_stage cfg lv r i st'))"
    if "symmetry st' = symmetry st" "targetSymmetry st' = targetSymmetry st"
       "symmetryTransition st' = symmetryTransition st" for st' r i
    using that assms by (intro symmetry_stage_inv sym_inv_cong [of M st st']) simp_all
  then show ?thesis
    by (simp add: process_def Let_def split_beta)
qed


lemma process_target_bounded:
  assumes "targetSymmetry st \<le> maxSymmetry cfg \<or> symmetryChanged (snd (process cfg rnd lv st))"
  shows "targetSymmetry (fst (process cfg rnd lv st)) \<le> maxSymmetry cfg"
proof -
  have "targetSymmetry (snd (symmetry_stage cfg lv r i st')) \<le> maxSymmetry cfg"
    if "targetSymmetry st' \<le> maxSymmetry cfg \<or> fst (symmetry_stage cfg lv r i st')" for st' r i
    using that by (auto simp add: symmetry_stage_def Let_def start_symmetry_change_def)
  moreover have "targetSymmetry (snd (pattern_stage cfg lv r i st')) = targetSymmetry st'" for r i st'
    by simp
  ultimately show ?thesis
    using assms by (simp add: process_def Let_def split_beta)
qed

subsection \<open>Scheduled frames and the render loop\<close>

lemma draw_cases:
  assumes "draw cfg rnd d st = Some (st', out)"
  obtains (skipped) "out = None" "st' = st\<lparr>frameCounter := frameCounter st + 1\<rparr>"
  | (processed) lv out1 where "finite_bands (band_levels d) = Some lv" "out = Some out1"
      "process cfg rnd lv (st\<lparr>frameCounter := frameCounter st + 1\<rparr>) = (st', out1)"
  using assms by (auto simp add: draw_def Let_def split: if_splits option.splits prod.splits)

lemma run_invariant:
  assumes "run cfg ins st = Some (st', outs)" and "P st"
    and skip: "\<And>s. P s \<Longrightarrow> P (s\<lparr>frameCounter := frameCounter s + 1\<rparr>)"
    and proc: "\<And>s rnd lv. P s \<Longrightarrow> P (fst (process cfg rnd lv s))"
  shows "P st'"
  using assms(1,2)
proof (induction ins arbitrary: st outs)
  case Nil
  then show ?case by simp
next
  case (Cons x ins)
  obtain rnd d where x: "x = (rnd, d)" by (cases x)
  from Cons.prems(1) obtain st1 out1 outs2 where
    d: "draw cfg rnd d st = Some (st1, out1)" and r: "run cfg ins st1 = Some (st', outs2)"
    by (auto simp add: x split: option.splits prod.splits)
  from d have "P st1"
  proof (cases rule: draw_cases)
    case skipped
    then show ?thesis using Cons.prems(2) skip by simp
  next
    case (processed lv o1)
    then show ?thesis
      using proc [OF skip [OF Cons.prems(2)], of rnd lv] by simp
  qed
  with Cons.IH [OF r] show ?case by simp
qed

lemma run_append:
  "run cfg (xs @ ys) st =
     (case run cfg xs st of
        None \<Rightarrow> None
      | Some (st1, outs1) \<Rightarrow>
          (case run cfg ys st1 of
             None \<Rightarrow> None
           | Some (st2, outs2) \<Rightarrow> Some (st2, outs1 @ outs2)))"
proof (induction xs arbitrary: st)
  case Nil
  show ?case by (simp split: option.splits)
next
  case (Cons x xs)
  obtain rnd d where x: "x = (rnd, d)" by (cases x)
  show ?case
    by (simp add: x Cons.IH split: option.splits prod.splits)
qed

lemma profile_maxSymmetry:
  "maxSymmetry (profile_of hc mob) \<in> {4, 6, 8, 10}"
  by (simp add: profile_of_def detectPerformance_def default_config_def Let_def)

lemma profile_maxSymmetry_facts:
  "4 \<le> maxSymmetry (profile_of hc mob)" "even (maxSymmetry (profile_of hc mob))"
  using profile_maxSymmetry [of hc mob] by auto

lemma initial_sym_inv: "sym_inv M (initial_state hc mob)"
  by (simp add: sym_inv_def initial_state_def init_state_def)

subsection \<open>Pattern invariant\<close>

lemma advance_pattern_active:
  assumes "patternTransition st = of_nat k / 40" and "k < 40"
  shows "patternTransition (advance_pattern st) = of_nat (Suc k) / 40"
    and "patternTransition (advance_pattern st) = patternTransition st + 25 / 1000"
    and "patternTransition (advance_pattern st) = 1 \<Longrightarrow>
           currentPattern (advance_pattern st) = targetPattern st"
    and "patternTransition (advance_pattern st) < 1 \<Longrightarrow>
           currentPattern (advance_pattern st) = currentPattern st"
proof -
  let ?t = "patternTransition st + 25 / 1000"
  have lt: "patternTransition st < 1"
    using assms by simp
  have "Suc k \<le> 40"
    using assms(2) by simp
  then have "(of_nat (Suc k) :: rat) \<le> of_nat 40"
    by (simp only: of_nat_le_iff)
  then have "(of_nat k :: rat) + 1 \<le> 40"
    by simp
  then have le: "?t \<le> 1"
    using assms(1) by simp
  have eq: "advance_pattern st =
      (if ?t = 1 then st\<lparr>patternTransition := ?t, currentPattern := targetPattern st\<rparr>
       else st\<lparr>patternTransition := ?t\<rparr>)"
    using lt min_absorb2 [OF le] by (simp add: advance_pattern_def Let_def)
  show 1: "patternTransition (advance_pattern st) = ?t"
    by (simp add: eq)
  show "patternTransition (advance_pattern st) = of_nat (Suc k) / 40"
    unfolding 1 assms(1) by (simp add: field_simps)
  show "patternTransition (advance_pattern st) = 1 \<Longrightarrow>
           currentPattern (advance_pattern st) = targetPattern st"
    unfolding 1 by (simp add: eq)
  show "patternTransition (advance_pattern st) < 1 \<Longrightarrow>
           currentPattern (advance_pattern st) = currentPattern st"
    unfolding 1 by (simp add: eq)
qed

lemma advance_pattern_stable:
  "patternTransition st = 1 \<Longrightarrow> advance_pattern st = st"
  by (simp add: advance_pattern_def)

lemma pattern_stage_active:
  assumes "patternTransition st = of_nat k / 40" and "k < 40"
  shows "\<not> fst (pattern_stage cfg lv r i st)"
    and "patternTransition (snd (pattern_stage cfg lv r i st)) = of_nat (Suc k) / 40"
    and "patternTransition (snd (pattern_stage cfg lv r i st)) = patternTransition st + 25 / 1000"
    and "targetPattern (snd (pattern_stage cfg lv r i st)) = targetPattern st"
    and "patternTransition (snd (pattern_stage cfg lv r i st)) = 1 \<Longrightarrow>
           currentPattern (snd (pattern_stage cfg lv r i st)) = targetPattern st"
    and "patternTransition (snd (pattern_stage cfg lv r i st)) < 1 \<Longrightarrow>
           currentPattern (snd (pattern_stage cfg lv r i st)) = currentPattern st"
proof -
  let ?st1 = "st\<lparr>patternChangeCounter := patternChangeCounter st + 1\<rparr>"
  have ne: "patternTransition st \<noteq> 1"
    using assms by simp
  then have nt: "\<not> pattern_trigger i lv ?st1"
    by (simp add: pattern_trigger_def Let_def)
  then have eq: "pattern_stage cfg lv r i st = (False, advance_pattern ?st1)"
    by (simp add: pattern_stage_def Let_def)
  have p: "patternTransition ?st1 = of_nat k / 40"
    using assms(1) by simp
  show "\<not> fst (pattern_stage cfg lv r i st)"
    by (simp add: eq)
  show "patternTransition (snd (pattern_stage cfg lv r i st)) = of_nat (Suc k) / 40"
    using advance_pattern_active(1) [OF p assms(2)] by (simp add: eq)
  show "patternTransition (snd (pattern_stage cfg lv r i st)) = patternTransition st + 25 / 1000"
    using advance_pattern_active(2) [OF p assms(2)] by (simp add: eq)
  show "targetPattern (snd (pattern_stage cfg lv r i st)) = targetPattern st"
    by (simp add: eq)
  show "patternTransition (snd (pattern_stage cfg lv r i st)) = 1 \<Longrightarrow>
           currentPattern (snd (pattern_stage cfg lv r i st)) = targetPattern st"
    using advance_pattern_active(3) [OF p assms(2)] by (simp add: eq)
  show "patternTransition (snd (pattern_stage cfg lv r i st)) < 1 \<Longrightarrow>
           currentPattern (snd (pattern_stage cfg lv r i st)) = currentPattern st"
    using advance_pattern_active(4) [OF p assms(2)] by (simp add: eq)
qed

lemma pattern_stage_stable:
  assumes "patternTransition st = 1"
  shows "fst (pattern_stage cfg lv r i st) \<Longrightarrow>
           patternTransition (snd (pattern_stage cfg lv r i st)) = 25 / 1000 \<and>
           currentPattern (snd (pattern_stage cfg lv r i st)) = currentPattern st"
    and "\<not> fst (pattern_stage cfg lv r i st) \<Longrightarrow>
           patternTransition (snd (pattern_stage cfg lv r i st)) = 1 \<and>
           currentPattern (snd (pattern_stage cfg lv r i st)) = currentPattern st \<and>
           targetPattern (snd (pattern_stage cfg lv r i st)) = targetPattern st"
  using assms
  by (simp_all add: pattern_stage_def Let_def advance_pattern_def start_pattern_change_def)

lemma pattern_stage_trigger:
  "fst (pattern_stage cfg lv r i st) \<Longrightarrow> patternTransition st = 1"
  by (simp add: pattern_stage_def Let_def pattern_trigger_def)

lemma pattern_stage_inv:
  assumes "pat_inv st"
  shows "pat_inv (snd (pattern_stage cfg lv r i st))"
proof -
  from assms obtain k where k: "k \<le> 40" "patternTransition st = of_nat k / 40"
    by (auto simp add: pat_inv_def)
  show ?thesis
  proof (cases "k < 40")
    case True
    have "Suc k \<le> 40" using True by simp
    moreover note a = pattern_stage_active [OF k(2) True, of cfg lv r i]
    ultimately have "\<exists>j\<le>40. patternTransition (snd (pattern_stage cfg lv r i st)) = of_nat j / 40"
      using a(2) by blast
    with a(4,5) show ?thesis
      unfolding pat_inv_def by simp
  next
    case False
    with k have one: "patternTransition st = 1" by simp
    show ?thesis
    proof (cases "fst (pattern_stage cfg lv r i st)")
      case True
      have p: "patternTransition (snd (pattern_stage cfg lv r i st)) = of_nat 1 / 40"
        using pattern_stage_stable(1) [OF one True] by simp
      then have "\<exists>j\<le>40. patternTransition (snd (pattern_stage cfg lv r i st)) = of_nat j / 40"
        by (intro exI [of _ 1]) simp
      with p show ?thesis
        unfolding pat_inv_def by simp
    next
      case False
      note a = pattern_stage_stable(2) [OF one False]
      have "\<exists>j\<le>40. patternTransition (snd (pattern_stage cfg lv r i st)) = of_nat j / 40"
        using a by (intro exI [of _ 40]) simp
      with a assms one show ?thesis
        unfolding pat_inv_def by simp
    qed
  qed
qed


lemma pat_inv_cong:
  "pat_inv st \<Longrightarrow> patternTransition st' = patternTransition st \<Longrightarrow>
   currentPattern st' = currentPattern st \<Longrightarrow> targetPattern st' = targetPattern st \<Longrightarrow>
   pat_inv st'"
  by (simp add: pat_inv_def)

text \<open>The processed frame, seen from the pattern transition.\<close>

lemma process_pattern_stage:
  "\<exists>X i. patternTransition X = patternTransition st \<and> currentPattern X = currentPattern st \<and>
     targetPattern X = targetPattern st \<and>
     patternTransition (fst (process cfg rnd lv st)) =
       patternTransition (snd (pattern_stage cfg lv (randPattern rnd) i X)) \<and>
     currentPattern (fst (process cfg rnd lv st)) =
       currentPattern (snd (pattern_stage cfg lv (randPattern rnd) i X)) \<and>
     targetPattern (fst (process cfg rnd lv st)) =
       targetPattern (snd (pattern_stage cfg lv (randPattern rnd) i X)) \<and>
     patternChanged (snd (process cfg rnd lv st)) =
       fst (pattern_stage cfg lv (randPattern rnd) i X)"
proof -
  let ?st2 = "track_energy (average lv) (st\<lparr>frame := frame st + 1\<rparr>)"
  let ?st3 = "snd (beat_stage (bassLevel lv) ?st2)"
  let ?i = "fst (impact_stage (bassLevel lv) ?st3)"
  let ?X = "update_hue lv (snd (impact_stage (bassLevel lv) ?st3))"
  show ?thesis
    by (rule exI [of _ ?X], rule exI [of _ ?i]) (simp add: process_def Let_def split_beta)
qed

lemma process_pat_inv:
  assumes "pat_inv st"
  shows "pat_inv (fst (process cfg rnd lv st))"
proof -
  obtain X i where X: "patternTransition X = patternTransition st"
      "currentPattern X = currentPattern st" "targetPattern X = targetPattern st"
    and P: "patternTransition (fst (process cfg rnd lv st)) =
       patternTransition (snd (pattern_stage cfg lv (randPattern rnd) i X))"
     "currentPattern (fst (process cfg rnd lv st)) =
       currentPattern (snd (pattern_stage cfg lv (randPattern rnd) i X))"
     "targetPattern (fst (process cfg rnd lv st)) =
       targetPattern (snd (pattern_stage cfg lv (randPattern rnd) i X))"
    using process_pattern_stage [of st cfg rnd lv] by blast
  have "pat_inv X"
    using assms X by (rule pat_inv_cong)
  then have "pat_inv (snd (pattern_stage cfg lv (randPattern rnd) i X))"
    by (rule pattern_stage_inv)
  then show ?thesis
    using P by (rule pat_inv_cong)
qed

lemma initial_pat_inv: "pat_inv (initial_state hc mob)"
  unfolding pat_inv_def
  by (rule conjI, rule exI [of _ 40]) (simp_all add: initial_state_def init_state_def)

lemma run_pat_inv:
  assumes "run cfg ins (initial_state hc mob) = Some (st, outs)"
  shows "pat_inv st"
  using assms initial_pat_inv
proof (rule run_invariant)
  show "pat_inv (s\<lparr>frameCounter := frameCounter s + 1\<rparr>)" if "pat_inv s" for s
    using that by (simp add: pat_inv_def)
  show "pat_inv (fst (process cfg rnd lv s))" if "pat_inv s" for s rnd lv
    using that by (rule process_pat_inv)
qed

lemma run_sym_inv:
  assumes "run (profile_of hc mob) ins (initial_state hc mob) = Some (st, outs)"
  shows "sym_inv (maxSymmetry (profile_of hc mob)) st"
  using assms initial_sym_inv
proof (rule run_invariant)
  let ?M = "maxSymmetry (profile_of hc mob)"
  show "sym_inv ?M (s\<lparr>frameCounter := frameCounter s + 1\<rparr>)" if "sym_inv ?M s" for s
    using that by (simp add: sym_inv_def)
  show "sym_inv ?M (fst (process (profile_of hc mob) rnd lv s))" if "sym_inv ?M s" for s rnd lv
    using that profile_maxSymmetry_facts [of hc mob] by (intro process_sym_inv) simp_all
qed

subsection \<open>Beat detector\<close>

lemma detect_beat_facts:
  "fst (detect_beat b fr bd) \<Longrightarrow> 10 < fr - lastBeat bd"
  "lastBeat (snd (detect_beat b fr bd)) = (if fst (detect_beat b fr bd) then fr else lastBeat bd)"
  "confidence (snd (detect_beat b fr bd)) =
     (if fst (detect_beat b fr bd) then min 1 (confidence bd + 1 / 10)
      else max 0 (confidence bd - 1 / 100))"
  "threshold (snd (detect_beat b fr bd)) = threshold bd"
  "history (snd (detect_beat b fr bd)) = shift_push (history bd) b"
  by (simp_all add: detect_beat_def Let_def)

lemma beat_stage_detect:
  "fst (beat_stage b st) = fst (detect_beat b (frame st) (beatDetector (audioState st)))"
  "beatDetector (audioState (snd (beat_stage b st))) =
     snd (detect_beat b (frame st) (beatDetector (audioState st)))"
  by (simp_all add: beat_stage_def split_beta)

lemma process_beat:
  "isBeat (snd (process cfg rnd lv st)) =
     fst (detect_beat (bassLevel lv) (frame st + 1) (beatDetector (audioState st)))"
  "beatDetector (audioState (fst (process cfg rnd lv st))) =
     snd (detect_beat (bassLevel lv) (frame st + 1) (beatDetector (audioState st)))"
  "frameNo (snd (process cfg rnd lv st)) = frame st + 1"
  by (simp_all add: process_def Let_def split_beta beat_stage_detect)

lemma run_conf_inv:
  assumes "run cfg ins (initial_state hc mob) = Some (st, outs)"
  shows "conf_inv st"
  using assms
proof (rule run_invariant)
  show "conf_inv (initial_state hc mob)"
    by (simp add: conf_inv_def initial_state_def init_state_def)
  show "conf_inv (s\<lparr>frameCounter := frameCounter s + 1\<rparr>)" if "conf_inv s" for s
    using that by (simp add: conf_inv_def)
  show "conf_inv (fst (process cfg rnd lv s))" if "conf_inv s" for s rnd lv
    using that by (simp add: conf_inv_def process_beat detect_beat_facts)
qed

lemma run_beats:
  assumes "run cfg ins st = Some (st', outs)"
  shows "(\<forall>out\<in>set outs. frame st < frameNo out \<and>
            (isBeat out \<longrightarrow> 10 < frameNo out - lastBeat (beatDetector (audioState st)))) \<and>
         (\<forall>o1\<in>set outs. \<forall>o2\<in>set outs.
            isBeat o1 \<and> isBeat o2 \<and> frameNo o1 < frameNo o2 \<longrightarrow> 10 < frameNo o2 - frameNo o1)"
  using assms
proof (induction ins arbitrary: st outs)
  case Nil
  then show ?case by simp
next
  case (Cons x ins)
  obtain rnd d where x: "x = (rnd, d)" by (cases x)
  from Cons.prems obtain st1 out1 outs2 where
    d: "draw cfg rnd d st = Some (st1, out1)" and r: "run cfg ins st1 = Some (st', outs2)"
    and o: "outs = (case out1 of None \<Rightarrow> outs2 | Some out \<Rightarrow> out # outs2)"
    by (auto simp add: x split: option.splits prod.splits)
  note IH = Cons.IH [OF r]
  from d show ?case
  proof (cases rule: draw_cases)
    case skipped
    then show ?thesis using IH o by simp
  next
    case (processed lv out)
    let ?st0 = "st\<lparr>frameCounter := frameCounter st + 1\<rparr>"
    have st1: "st1 = fst (process cfg rnd lv ?st0)" and out: "out = snd (process cfg rnd lv ?st0)"
      using processed(3) by simp_all
    have fr: "frame st1 = frame st + 1" "frameNo out = frame st + 1"
      by (simp_all add: st1 out process_beat)
    have b: "isBeat out \<Longrightarrow> 10 < frame st + 1 - lastBeat (beatDetector (audioState st))"
      unfolding out process_beat using detect_beat_facts(1) by simp
    have lb: "lastBeat (beatDetector (audioState st1)) =
        (if isBeat out then frame st + 1 else lastBeat (beatDetector (audioState st)))"
      by (simp add: st1 out process_beat detect_beat_facts)
    have outs: "outs = out # outs2"
      using o processed(2) by simp
    show ?thesis
      unfolding outs using IH fr b lb by (auto split: if_splits)
  qed
qed

subsection \<open>Target symmetry after a change\<close>

lemma run_target_bounded:
  assumes "run cfg ins st = Some (st', outs)"
    and "targetSymmetry st \<le> maxSymmetry cfg \<or> (\<exists>out\<in>set outs. symmetryChanged out)"
  shows "targetSymmetry st' \<le> maxSymmetry cfg"
  using assms
proof (induction ins arbitrary: st outs)
  case Nil
  then show ?case by simp
next
  case (Cons x ins)
  obtain rnd d where x: "x = (rnd, d)" by (cases x)
  from Cons.prems(1) obtain st1 out1 outs2 where
    d: "draw cfg rnd d st = Some (st1, out1)" and r: "run cfg ins st1 = Some (st', outs2)"
    and o: "outs = (case out1 of None \<Rightarrow> outs2 | Some out \<Rightarrow> out # outs2)"
    by (auto simp add: x split: option.splits prod.splits)
  from d have "targetSymmetry st1 \<le> maxSymmetry cfg \<or> (\<exists>out\<in>set outs2. symmetryChanged out)"
  proof (cases rule: draw_cases)
    case skipped
    then show ?thesis using Cons.prems(2) o by auto
  next
    case (processed lv out)
    let ?st0 = "st\<lparr>frameCounter := frameCounter st + 1\<rparr>"
    have e: "st1 = fst (process cfg rnd lv ?st0)" "out = snd (process cfg rnd lv ?st0)"
      using processed(3) by simp_all
    have "targetSymmetry ?st0 \<le> maxSymmetry cfg \<or> symmetryChanged out \<or>
          (\<exists>out\<in>set outs2. symmetryChanged out)"
      using Cons.prems(2) o processed(2) by auto
    then show ?thesis
      using process_target_bounded [of ?st0 cfg rnd lv] e by auto
  qed
  then show ?case by (rule Cons.IH [OF r])
qed

subsection \<open>Rendering\<close>

lemma process_calls:
  "calls (snd (process cfg rnd lv st)) = render_patterns cfg (fst (process cfg rnd lv st))"
  by (simp add: process_def Let_def split_beta)

lemma symmetry_loop_facts:
  "map rot_index (symmetry_loop n p a) = [0 ..< nat n]"
  "map drawn (symmetry_loop n p a) = replicate (nat n) p"
  "map alpha (symmetry_loop n p a) = replicate (nat n) a"
  "map rot_of (symmetry_loop n p a) = replicate (nat n) n"
  "length (symmetry_loop n p a) = nat n"
  by (simp_all add: symmetry_loop_def comp_def map_replicate_const map_idI)

lemma render_patterns_facts:
  "map rot_index (render_patterns cfg st) =
     (if patternTransition st < 1
      then [0 ..< nat (min (symmetry st) (maxSymmetry cfg))] @
           [0 ..< nat (min (symmetry st) (maxSymmetry cfg))]
      else [0 ..< nat (min (symmetry st) (maxSymmetry cfg))])"
  "map drawn (render_patterns cfg st) =
     (if patternTransition st < 1
      then replicate (nat (min (symmetry st) (maxSymmetry cfg))) (currentPattern st) @
           replicate (nat (min (symmetry st) (maxSymmetry cfg))) (targetPattern st)
      else replicate (nat (min (symmetry st) (maxSymmetry cfg))) (currentPattern st))"
  "map rot_of (render_patterns cfg st) =
     replicate (length (render_patterns cfg st)) (min (symmetry st) (maxSymmetry cfg))"
  by (simp_all add: render_patterns_def Let_def symmetry_loop_facts replicate_add [symmetric])

subsection \<open>Frames of full-scale bass\<close>

lemma sum_all_255:
  "list_all (\<lambda>v. v = 255) xs \<Longrightarrow> sum_list (map unat (xs :: byte list)) = 255 * length xs"
  by (induction xs) simp_all

lemma bass_bins_full_levels:
  assumes "bass_bins_full d"
  shows "\<exists>lv. finite_bands (band_levels d) = Some lv \<and> bassLevel lv = 1"
proof -
  have ne: "d \<noteq> []" and all: "list_all (\<lambda>v. v = 255) (take 10 d)"
    using assms by (simp_all add: bass_bins_full_def)
  have u: "in_unit (average (band_levels d))" "in_unit (bassLevel (band_levels d))"
      "in_unit (lowMidLevel (band_levels d))" "in_unit (highMidLevel (band_levels d))"
      "in_unit (trebleLevel (band_levels d))"
    using band_levels_nonempty [OF ne] by blast+
  have m: "0 < min 10 (length d)" using ne by simp
  have "bassSum (sum_bins d) = 255 * min 10 (length d)"
    using sum_all_255 [OF all] by (simp add: sum_bins_slices)
  then have b: "bassLevel (band_levels d) = Num 1"
    using m by (simp add: band_levels_def Let_def js_of_nat_def bassRange_def)
  from u obtain a l h t where
    "average (band_levels d) = Num a" "lowMidLevel (band_levels d) = Num l"
    "highMidLevel (band_levels d) = Num h" "trebleLevel (band_levels d) = Num t"
    by (metis in_unit.elims(2))
  with b show ?thesis
    by (simp add: finite_bands_def)
qed

lemma nonempty_levels:
  assumes "d \<noteq> []"
  shows "\<exists>lv. finite_bands (band_levels d) = Some lv"
proof -
  have u: "in_unit (average (band_levels d))" "in_unit (bassLevel (band_levels d))"
      "in_unit (lowMidLevel (band_levels d))" "in_unit (highMidLevel (band_levels d))"
      "in_unit (trebleLevel (band_levels d))"
    using band_levels_nonempty [OF assms] by blast+
  then obtain a b l h t where
    "average (band_levels d) = Num a" "bassLevel (band_levels d) = Num b"
    "lowMidLevel (band_levels d) = Num l"
    "highMidLevel (band_levels d) = Num h" "trebleLevel (band_levels d) = Num t"
    by (metis in_unit.elims(2))
  then show ?thesis
    by (simp add: finite_bands_def)
qed

lemma draw_total:
  assumes "d \<noteq> []"
  shows "\<exists>st' out. draw cfg rnd d st = Some (st', out)"
  using nonempty_levels [OF assms]
  by (auto simp add: draw_def Let_def split_beta)

lemma run_total:
  assumes "\<forall>(rnd, d)\<in>set ins. d \<noteq> []"
  shows "\<exists>st' outs. run cfg ins st = Some (st', outs)"
  using assms
proof (induction ins arbitrary: st)
  case Nil
  show ?case by simp
next
  case (Cons x ins)
  obtain rnd d where x: "x = (rnd, d)" by (cases x)
  have "d \<noteq> []" using Cons.prems by (simp add: x)
  then obtain st1 out1 where d: "draw cfg rnd d st = Some (st1, out1)"
    using draw_total by blast
  have rest: "\<forall>(rnd, d)\<in>set ins. d \<noteq> []"
    using Cons.prems by simp
  obtain st' outs where "run cfg ins st1 = Some (st', outs)"
    using Cons.IH [OF rest] by blast
  with d show ?case by (simp add: x)
qed

lemma full_bass_step:
  assumes "full_bass_inv st" and "bassLevel lv = 1"
  shows "full_bass_inv (fst (process cfg rnd lv st))" and "\<not> isBeat (snd (process cfg rnd lv st))"
proof -
  let ?bd = "beatDetector (audioState st)"
  from assms(1) obtain m where m: "m \<le> 5" "int m = min 5 (frame st)"
    and h: "history ?bd = replicate (5 - m) 0 @ replicate m 1"
    and b: "lastBeat ?bd = 0" "confidence ?bd = 0" "threshold ?bd = 7 / 10"
    by (auto simp add: full_bass_inv_def Let_def)
  let ?m' = "min 5 (Suc m)"
  have h': "shift_push (history ?bd) 1 = replicate (5 - ?m') 0 @ replicate ?m' 1"
  proof (cases "m < 5")
    case True
    then have "5 - m = Suc (4 - m)" by simp
    then show ?thesis
      using True by (simp add: h shift_push_def replicate_append_same)
  next
    case False
    with m have "m = 5" by simp
    then show ?thesis
      by (simp add: h shift_push_def replicate_numeral)
  qed
  have sum: "sum_list (shift_push (history ?bd) 1) = of_nat ?m'"
    unfolding h' by (simp add: sum_list_replicate)
  have len: "length (shift_push (history ?bd) 1) = 5"
    unfolding h' using m(1) by simp
  have nb: "\<not> fst (detect_beat 1 (frame st + 1) ?bd)"
  proof (cases "m < 5")
    case True
    with m have "frame st + 1 \<le> 10" by simp
    then show ?thesis
      by (simp add: detect_beat_def Let_def b)
  next
    case False
    with m have "?m' = 5" by simp
    then show ?thesis
      by (simp add: detect_beat_def Let_def sum len)
  qed
  show "\<not> isBeat (snd (process cfg rnd lv st))"
    using nb by (simp add: process_beat assms(2))
  have m': "int ?m' = min 5 (frame st + 1)"
    using m by (simp add: min_def split: if_splits)
  let ?st' = "fst (process cfg rnd lv st)"
  let ?bd' = "snd (detect_beat 1 (frame st + 1) ?bd)"
  have bd': "beatDetector (audioState ?st') = ?bd'"
    by (simp add: process_beat assms(2))
  have 1: "lastBeat ?bd' = 0"
    using nb b by (simp add: detect_beat_facts)
  have 2: "confidence ?bd' = 0"
    using nb b by (simp add: detect_beat_facts)
  have 3: "threshold ?bd' = 7 / 10"
    using b by (simp add: detect_beat_facts)
  have 4: "history ?bd' = replicate (5 - ?m') 0 @ replicate ?m' 1"
    using h' by (simp only: detect_beat_facts)
  have 5: "int ?m' = min 5 (frame ?st')"
    using m' by (simp only: process_frame)
  have "?m' \<le> 5" by simp
  with 4 5 have ex: "\<exists>k\<le>5. int k = min 5 (frame ?st') \<and>
      history ?bd' = replicate (5 - k) 0 @ replicate k 1"
    by blast
  show "full_bass_inv ?st'"
    unfolding full_bass_inv_def Let_def bd'
    by (intro conjI) (fact 1 2 3 ex)+
qed

lemma full_bass_run:
  assumes "run cfg ins st = Some (st', outs)" and "full_bass_inv st"
    and "\<forall>(rnd, d)\<in>set ins. bass_bins_full d"
  shows "full_bass_inv st' \<and> (\<forall>out\<in>set outs. \<not> isBeat out)"
  using assms
proof (induction ins arbitrary: st outs)
  case Nil
  then show ?case by simp
next
  case (Cons x ins)
  obtain rnd d where x: "x = (rnd, d)" by (cases x)
  from Cons.prems(1) obtain st1 out1 outs2 where
    d: "draw cfg rnd d st = Some (st1, out1)" and r: "run cfg ins st1 = Some (st', outs2)"
    and o: "outs = (case out1 of None \<Rightarrow> outs2 | Some out \<Rightarrow> out # outs2)"
    by (auto simp add: x split: option.splits prod.splits)
  have full: "bass_bins_full d" and rest: "\<forall>(rnd, d)\<in>set ins. bass_bins_full d"
    using Cons.prems(3) by (simp_all add: x)
  from d have "full_bass_inv st1 \<and> (\<forall>out. out1 = Some out \<longrightarrow> \<not> isBeat out)"
  proof (cases rule: draw_cases)
    case skipped
    then show ?thesis using Cons.prems(2) by (simp add: full_bass_inv_def)
  next
    case (processed lv out)
    let ?st0 = "st\<lparr>frameCounter := frameCounter st + 1\<rparr>"
    have lv: "bassLevel lv = 1"
      using bass_bins_full_levels [OF full] processed(1) by auto
    have inv0: "full_bass_inv ?st0"
      using Cons.prems(2) by (simp add: full_bass_inv_def)
    have e: "st1 = fst (process cfg rnd lv ?st0)" "out = snd (process cfg rnd lv ?st0)"
      using processed(3) by simp_all
    show ?thesis
      using full_bass_step [OF inv0 lv, of cfg rnd] e processed(2) by simp
  qed
  with Cons.IH [OF r _ rest] o show ?case
    by (auto split: option.splits)
qed

lemma initial_full_bass_inv: "full_bass_inv (initial_state hc mob)"
  unfolding full_bass_inv_def Let_def
  by (simp add: initial_state_def init_state_def)

lemma band_levels_slices:
  "band_levels d =
     (let n = length d in
      \<lparr>average = js_div (js_div (js_of_nat (sum_list (map unat (take 200 d)))) (js_of_nat (min 200 n))) (Num 255),
       bassLevel = js_div (js_div (js_of_nat (sum_list (map unat (take 10 d)))) (js_of_nat (min 10 n))) (Num 255),
       lowMidLevel = js_div (js_div (js_of_nat (sum_list (map unat (take 30 (drop 10 d)))))
                      (js_of_nat (max 1 (min 40 n - min 10 n)))) (Num 255),
       highMidLevel = js_div (js_div (js_of_nat (sum_list (map unat (take 60 (drop 40 d)))))
                      (js_of_nat (max 1 (min 100 n - min 40 n)))) (Num 255),
       trebleLevel = js_div (js_div (js_of_nat (sum_list (map unat (take 100 (drop 100 d)))))
                      (js_of_nat (max 1 (min 200 n - min 100 n)))) (Num 255)\<rparr>)"
  by (simp add: band_levels_def sum_bins_slices Let_def bassRange_def lowMidRange_def
      highMidRange_def trebleRange_def)

lemmas levels_eval = band_levels_slices finite_bands_def js_of_nat_def Let_def sum_list_replicate

lemma silent_levels:
  "finite_bands (band_levels silent) =
     Some \<lparr>average = 0, bassLevel = 0, lowMidLevel = 0, highMidLevel = 0, trebleLevel = 0\<rparr>"
  by (simp add: silent_def levels_eval)

lemma loud_levels:
  "finite_bands (band_levels loud) =
     Some \<lparr>average = 1, bassLevel = 1, lowMidLevel = 1, highMidLevel = 1, trebleLevel = 1\<rparr>"
  by (simp add: loud_def levels_eval)

lemma bass_only_levels:
  "finite_bands (band_levels bass_only) =
     Some \<lparr>average = 5 / 64, bassLevel = 1, lowMidLevel = 0, highMidLevel = 0, trebleLevel = 0\<rparr>"
  by (simp add: bass_only_def levels_eval)

lemma mid_heavy_levels:
  "finite_bands (band_levels mid_heavy) =
     Some \<lparr>average = 55 / 102, bassLevel = 46 / 51, lowMidLevel = 0, highMidLevel = 1,
           trebleLevel = 0\<rparr>"
  by (simp add: mid_heavy_def levels_eval)

lemma js_rem_small: "0 \<le> a \<Longrightarrow> a < b \<Longrightarrow> js_rem a b = a"
proof -
  assume a: "0 \<le> a" "a < b"
  then have "0 \<le> a / b" "a / b < 1" by simp_all
  then have "\<lfloor>a / b\<rfloor> = 0" by (simp add: floor_eq_iff)
  with \<open>0 \<le> a / b\<close> show ?thesis by (simp add: js_rem_def Let_def)
qed

lemma process_eval:
  "process cfg rnd lv st =
     process_impact cfg rnd lv
       (beat_stage (bassLevel lv) (track_energy (average lv) (st\<lparr>frame := frame st + 1\<rparr>)))"
  by (simp add: process_def Let_def split_beta
      process_impact.simps [of _ _ _ "fst p" "snd p" for p, simplified]
      process_pattern.simps [of _ _ _ _ "fst p" "snd p" for p, simplified]
      process_symmetry.simps [of _ _ _ _ _ "fst p" "snd p" for p, simplified]
      process_result.simps [of _ _ _ _ "fst p" "snd p" for p, simplified])

lemma draw_eval:
  "draw cfg rnd d st =
     (if (frameCounter st + 1) mod drawEveryNthFrame cfg \<noteq> 0
      then Some (st\<lparr>frameCounter := frameCounter st + 1\<rparr>, None)
      else draw_levels cfg rnd (st\<lparr>frameCounter := frameCounter st + 1\<rparr>)
             (finite_bands (band_levels d)))"
  by (simp add: draw_def Let_def process_eval split: option.splits prod.splits)

lemma run_acc_run:
  "run_acc cfg ins acc (Some (st, out)) =
     map_option (\<lambda>(st', outs). (st', rev acc @ (case out of None \<Rightarrow> [] | Some o1 \<Rightarrow> [o1]) @ outs))
       (run cfg ins st)"
proof (induction ins arbitrary: acc st out)
  case Nil
  show ?case by (cases out) simp_all
next
  case (Cons x ins)
  obtain rnd d where x: "x = (rnd, d)" by (cases x)
  show ?case
  proof (cases "draw cfg rnd d st")
    case None
    then show ?thesis by (cases out) (simp_all add: x)
  next
    case (Some p)
    obtain st1 out1 where p: "p = (st1, out1)" by (cases p)
    show ?thesis
      by (cases out; cases "run cfg ins st1")
         (auto simp add: x Some p Cons.IH split: option.splits)
  qed
qed

lemma run_eval: "run cfg ins st = run_acc cfg ins [] (Some (st, None))"
  by (simp add: run_acc_run option.map_ident split_def)

lemmas stage_defs = process_eval track_energy_def beat_stage_def impact_stage_def
  pattern_stage_def symmetry_stage_def detect_beat_def update_hue_def pattern_trigger_def
  start_pattern_change_def advance_pattern_def symmetry_trigger_def start_symmetry_change_def
  advance_symmetry_def render_patterns_def shift_push_def js_rem_small js_round_def
  choose_pattern_def availablePatterns_def symmetry_loop_def

lemmas wcong = let_weak_cong prod.case_cong_weak

lemmas ev = profile_of_def initial_state_def detectPerformance_def default_config_def
  init_state_def rand0_def stage_defs Let_def floor_rat_numeral floor_rat_neg_numeral
  replicate_numeral draw_eval run_eval loud_levels silent_levels bass_only_levels mid_heavy_levels

section \<open>Concrete runs\<close>

lemma run_frameNos:
  assumes "run cfg ins st = Some (st', outs)"
  shows "map frameNo outs = [frame st + 1 .. frame st + int (length outs)] \<and>
         frame st' = frame st + int (length outs)"
  using assms
proof (induction ins arbitrary: st outs)
  case Nil
  then show ?case by simp
next
  case (Cons x ins)
  obtain rnd d where x: "x = (rnd, d)" by (cases x)
  from Cons.prems obtain st1 out1 outs2 where
    d: "draw cfg rnd d st = Some (st1, out1)" and r: "run cfg ins st1 = Some (st', outs2)"
    and o: "outs = (case out1 of None \<Rightarrow> outs2 | Some out \<Rightarrow> out # outs2)"
    by (auto simp add: x split: option.splits prod.splits)
  note IH = Cons.IH [OF r]
  from d show ?case
  proof (cases rule: draw_cases)
    case skipped
    then show ?thesis using IH o by simp
  next
    case (processed lv out)
    let ?st0 = "st\<lparr>frameCounter := frameCounter st + 1\<rparr>"
    have e: "st1 = fst (process cfg rnd lv ?st0)" "out = snd (process cfg rnd lv ?st0)"
      using processed(3) by simp_all
    have fr: "frame st1 = frame st + 1" "frameNo out = frame st + 1"
      by (simp_all add: e process_beat)
    have outs: "outs = out # outs2"
      using o processed(2) by simp
    have "[frame st + 1 .. frame st + 1 + int (length outs2)] =
          (frame st + 1) # [frame st + 1 + 1 .. frame st + 1 + int (length outs2)]"
      by (rule upto_rec1) simp
    with IH fr show ?thesis
      by (simp add: outs add.assoc)
  qed
qed

lemma run_snoc:
  "run cfg (xs @ [(rnd, d)]) st =
     (case run cfg xs st of
        None \<Rightarrow> None
      | Some (st1, outs1) \<Rightarrow>
          (case draw cfg rnd d st1 of
             None \<Rightarrow> None
           | Some (st2, out) \<Rightarrow>
               Some (st2, outs1 @ (case out of None \<Rightarrow> [] | Some out1 \<Rightarrow> [out1]))))"
  by (simp add: run_append split: option.splits prod.splits)

lemmas scen = quiet_frames_def symmetry_scenario_def symmetry_settled_scenario_def
  two_beats_scenario_def rand_last_def rand_half_def

lemma first_frame_symmetry:
  "map_option (symmetry \<circ> fst) (run (profile_of 2 True) (quiet_frames 3) (initial_state 2 True))
     = Some 8"
  by (simp add: ev scen cong: wcong)

lemma mobile_maxSymmetry: "maxSymmetry (profile_of 2 True) = 4"
  by (simp add: ev)

lemma mobile_basic: "\<not> enableAdvancedEffects (profile_of 2 True)"
  by (simp add: ev)

lemma scenario_symmetry_odd:
  "map_option (symmetry \<circ> fst)
     (run (profile_of 2 True) symmetry_scenario (initial_state 2 True)) = Some 7"
  by (simp add: ev scen cong: wcong)

lemma scenario_symmetry_settled:
  "map_option (\<lambda>p. (symmetry (fst p), symmetryTransition (fst p), list_ex symmetryChanged (snd p)))
     (run (profile_of 2 True) symmetry_settled_scenario (initial_state 2 True))
     = Some (4, 1, True)"
  by (simp add: ev scen cong: wcong)

lemma scenario_full_bass:
  "map_option (map isBeat \<circ> snd)
     (run (profile_of 8 False) (replicate 30 (rand0, bass_only)) (initial_state 8 False))
     = Some (replicate 15 False)"
  by (simp add: ev scen cong: wcong)

lemma scenario_two_beats:
  "map_option (map frameNo \<circ> filter isBeat \<circ> snd)
     (run (profile_of 8 False) two_beats_scenario (initial_state 8 False)) = Some [11, 22]"
  by (simp add: ev scen cong: wcong)

lemma idle_reached:
  "map_option fst (run (profile_of 2 True) (quiet_frames 542) (initial_state 2 True))
     = Some idle_state"
  by (simp add: ev scen idle_state_def cong: wcong)

section \<open>Transitions and rendering\<close>

lemma draw_processed:
  assumes "(frameCounter st + 1) mod drawEveryNthFrame cfg = 0" and "d \<noteq> []"
  shows "\<exists>st' out. draw cfg rnd d st = Some (st', Some out)"
proof -
  obtain lv where "finite_bands (band_levels d) = Some lv"
    using nonempty_levels [OF assms(2)] by blast
  then show ?thesis
    using assms(1) by (simp add: draw_def Let_def split_beta)
qed

lemma idle_next_processed:
  "(frameCounter idle_state + 1) mod drawEveryNthFrame (profile_of 2 True) = 0"
  by (simp add: idle_state_def ev)

lemma signals_nonempty: "silent \<noteq> []" "loud \<noteq> []" "bass_only \<noteq> []" "mid_heavy \<noteq> []"
  by (simp_all add: silent_def loud_def bass_only_def mid_heavy_def)

lemma idle_draw_web:
  "map_option (\<lambda>p. (targetPattern (fst p), map_option patternChanged (snd p)))
     (draw (profile_of 2 True) rand_last bass_only idle_state) = Some (SYMMETRICAL_WEB, Some True)"
  by (simp add: ev scen idle_state_def cong: wcong)

lemma idle_draw_wave:
  "map_option (\<lambda>p. (targetPattern (fst p), map_option patternChanged (snd p)))
     (draw (profile_of 2 True) rand_half mid_heavy idle_state) = Some (WAVE_PATTERN, Some True)"
  by (simp add: ev scen idle_state_def cong: wcong)

lemma idle_draw_tree:
  "map_option (\<lambda>p. (targetPattern (fst p), map_option patternChanged (snd p)))
     (draw (profile_of 2 True) rand0 loud idle_state) = Some (FRACTAL_TREE, Some True)"
  by (simp add: ev scen idle_state_def cong: wcong)

lemma after_trigger:
  "map_option (\<lambda>p. (patternTransition (fst p), frameCounter (fst p)))
     (run (profile_of 2 True) ([(rand0, loud)] @ quiet_frames 2) idle_state)
     = Some (1 / 40, 545)"
  by (simp add: ev scen idle_state_def cong: wcong)

lemma run_append_fst:
  assumes "map_option fst (run cfg xs st) = Some st1"
  shows "map_option fst (run cfg (xs @ ys) st) = map_option fst (run cfg ys st1)"
  using assms by (auto simp add: run_append split: option.splits)

lemma two_skipped:
  "map_option (frameCounter \<circ> fst)
     (run (profile_of 2 True) (quiet_frames 2) (initial_state 2 True)) = Some 2"
  by (simp add: ev scen cong: wcong)

lemma first_frame_state:
  "map_option (\<lambda>p. (symmetry (fst p), currentPattern (fst p), patternTransition (fst p)))
     (run (profile_of 2 True) (quiet_frames 3) (initial_state 2 True))
     = Some (8, FLOWER, 1)"
  by (simp add: ev scen cong: wcong)

section \<open>Band energies: claims\<close>

text \<open>
  Claim C6. For every non-empty frequency-magnitude array (its values are bytes, so within
  0..255), each of the five band energies is a finite number in the unit interval, and
  \<open>average\<close> is the mean of the first \<open>min 200 N\<close> bin values divided by 255.
\<close>

theorem band_levels_unit_interval:
  assumes "dataArray \<noteq> []"
  shows "in_unit (average (band_levels dataArray)) \<and>
         in_unit (bassLevel (band_levels dataArray)) \<and>
         in_unit (lowMidLevel (band_levels dataArray)) \<and>
         in_unit (highMidLevel (band_levels dataArray)) \<and>
         in_unit (trebleLevel (band_levels dataArray)) \<and>
         average (band_levels dataArray) =
           Num (mean_first (min 200 (length dataArray)) dataArray / 255)"
  using assms by (rule band_levels_nonempty)

text \<open>Witness for C6: a three-bin array.\<close>

theorem band_levels_unit_interval_witness:
  "[200, 100, 0] \<noteq> ([] :: byte list) \<and>
   band_levels [200, 100, 0] =
     \<lparr>average = Num (20 / 51), bassLevel = Num (20 / 51), lowMidLevel = Num 0,
      highMidLevel = Num 0, trebleLevel = Num 0\<rparr> \<and>
   in_unit (average (band_levels [200, 100, 0])) \<and>
   average (band_levels [200, 100, 0]) = Num (mean_first (min 200 (length [200, 100, 0 :: byte])) [200, 100, 0] / 255)"
proof -
  have ne: "[200, 100, 0] \<noteq> ([] :: byte list)" by simp
  have ev: "band_levels [200, 100, 0] =
     \<lparr>average = Num (20 / 51), bassLevel = Num (20 / 51), lowMidLevel = Num 0,
      highMidLevel = Num 0, trebleLevel = Num 0\<rparr>"
    by code_simp
  show ?thesis using band_levels_unit_interval [OF ne] ev ne by simp
qed


section \<open>Fractal tree and hue: claims\<close>

lemma drawBranch_returns:
  "\<exists>ops. drawBranch lv s len (int n) = Some ops \<and> Suc (length ops) \<le> 3 ^ n"
proof (induction n arbitrary: len)
  case 0
  show ?case by (subst drawBranch.simps) simp
next
  case (Suc n)
  obtain r where r: "drawBranch lv s (len * s) (int n) = Some r" "Suc (length r) \<le> 3 ^ n"
    using Suc.IH by blast
  obtain m where m: "drawBranch lv s (len * s * (8 / 10)) (int n) = Some m"
      "Suc (length m) \<le> 3 ^ n"
    using Suc.IH by blast
  show ?case
  proof (cases "n = 0")
    case True
    then show ?thesis
      using r by (subst drawBranch.simps) simp
  next
    case False
    then show ?thesis
      using r m by (subst drawBranch.simps) (auto simp add: Let_def)
  qed
qed

lemma drawBranch_v1_returns:
  "\<exists>ops k'. drawBranch_v1 rnd s len (int n) k = Some (ops, k') \<and> Suc (length ops) \<le> 3 ^ n"
proof (induction n arbitrary: len k)
  case 0
  show ?case by (subst drawBranch_v1.simps) simp
next
  case (Suc n)
  obtain r k1 where r: "drawBranch_v1 rnd s (len * s) (int n) k = Some (r, k1)"
      "Suc (length r) \<le> 3 ^ n"
    using Suc.IH by blast
  obtain l k2 where l: "drawBranch_v1 rnd s (len * s) (int n) k1 = Some (l, k2)"
      "Suc (length l) \<le> 3 ^ n"
    using Suc.IH by blast
  obtain m k3 where m: "drawBranch_v1 rnd s (len * s * (8 / 10)) (int n) (Suc k2) = Some (m, k3)"
      "Suc (length m) \<le> 3 ^ n"
    using Suc.IH by blast
  show ?case
  proof (cases "n = 0")
    case True
    then show ?thesis
      using r l by (subst drawBranch_v1.simps) simp
  next
    case False
    then show ?thesis
      using r l m by (subst drawBranch_v1.simps) (auto simp add: Let_def)
  qed
qed

text \<open>
  Claim C7. For every natural-number depth the fractal-tree generator returns, in both
  revisions and whatever the middle-branch decisions are, and the number of canvas operations
  it issues (branch strokes and leaf fills together) is at most \<open>3 ^ depth\<close>. Each recursive
  call is made at \<open>depth - 1\<close> and depth 0 returns at once, as the defining equations say.
\<close>

theorem fractal_tree_terminates_bounded:
  "(\<exists>ops. drawFractalTree lv (int n) scale = Some ops \<and> length ops \<le> 3 ^ n) \<and>
   (\<exists>ops k'. drawFractalTree_v1 rnd bass (int n) scale k = Some (ops, k') \<and>
              length ops \<le> 3 ^ n)"
proof -
  obtain ops where "drawFractalTree lv (int n) scale = Some ops" "Suc (length ops) \<le> 3 ^ n"
    unfolding drawFractalTree_def using drawBranch_returns by blast
  moreover obtain ops1 k' where
    "drawFractalTree_v1 rnd bass (int n) scale k = Some (ops1, k')"
    "Suc (length ops1) \<le> 3 ^ n"
    unfolding drawFractalTree_v1_def using drawBranch_v1_returns by blast
  ultimately show ?thesis
    by (metis Suc_leD)
qed

lemma hue_step_half:
  assumes "k < 720"
  shows "hue_step (of_nat k / 2) = (if Suc k = 720 then 0 else of_nat (Suc k) / 2)"
proof -
  let ?a = "(of_nat (Suc k) :: rat) / 2"
  have a: "of_nat k / 2 + 5 / 10 = ?a"
    by (simp add: field_simps)
  have q: "?a / 360 = of_nat (Suc k) / of_nat 720"
    by simp
  have f: "\<lfloor>?a / 360\<rfloor> = int (Suc k div 720)"
    unfolding q by (simp only: floor_divide_of_nat_eq)
  have nn: "0 \<le> ?a / 360"
    by simp
  have "hue_step (of_nat k / 2) = ?a - 360 * of_int (int (Suc k div 720))"
    unfolding hue_step_def a js_rem_def Let_def using nn f by simp
  also have "\<dots> = (if Suc k = 720 then 0 else ?a)"
    using assms by (cases "Suc k = 720") simp_all
  finally show ?thesis .
qed

lemma hue_after_closed: "hue_after n = of_nat (n mod 720) / 2"
proof (induction n)
  case 0
  show ?case by (simp add: hue_after_def)
next
  case (Suc n)
  have lt: "n mod 720 < 720" by simp
  have "hue_after (Suc n) = hue_step (hue_after n)"
    by (simp add: hue_after_def)
  also have "\<dots> = (if Suc (n mod 720) = 720 then 0 else of_nat (Suc (n mod 720)) / 2)"
    unfolding Suc.IH by (rule hue_step_half [OF lt])
  also have "\<dots> = of_nat (Suc n mod 720) / 2"
    by (simp add: mod_Suc)
  finally show ?case .
qed

text \<open>
  Claim C8. From hue 0, a thousand frames of \<open>hue = (hue + 0.5) % 360\<close> give exactly 140,
  which is \<open>(0.5 * 1000) % 360\<close>. All values involved are multiples of one half below 361, so
  they are exact in binary floating point as well.
\<close>

theorem hue_after_1000:
  "hue_after 1000 = 140 \<and> hue_after 1000 = js_rem (5 / 10 * 1000) 360"
proof -
  have "hue_after 1000 = 140"
    by (simp add: hue_after_closed)
  moreover have "js_rem (5 / 10 * 1000) 360 = 140"
    by (simp add: js_rem_def Let_def floor_rat_numeral)
  ultimately show ?thesis by simp
qed

section \<open>Beat detector: claims\<close>

text \<open>
  Claim C5. For every sequence of scheduled frames with non-empty frequency data the render
  loop returns; its processed frames are numbered 1, 2, 3, ...; any two of them on which a
  beat fires are more than 10 frames apart; and the confidence of the detector ends within
  the unit interval. On a beat the confidence is raised by 0.1 and capped at 1, otherwise it
  is lowered by 0.01 and floored at 0.
\<close>

theorem beat_cooldown_and_confidence:
  assumes "\<forall>(rnd, d)\<in>set ins. d \<noteq> []"
  shows "\<exists>st outs.
           run (profile_of hc mob) ins (initial_state hc mob) = Some (st, outs) \<and>
           map frameNo outs = [1 .. int (length outs)] \<and>
           (\<forall>o1\<in>set outs. \<forall>o2\<in>set outs.
              isBeat o1 \<and> isBeat o2 \<and> frameNo o1 < frameNo o2 \<longrightarrow>
              10 < frameNo o2 - frameNo o1) \<and>
           0 \<le> confidence (beatDetector (audioState st)) \<and>
           confidence (beatDetector (audioState st)) \<le> 1 \<and>
           confidence (snd (detect_beat b fr bd)) =
             (if fst (detect_beat b fr bd) then min 1 (confidence bd + 1 / 10)
              else max 0 (confidence bd - 1 / 100))"
proof -
  obtain st outs where r: "run (profile_of hc mob) ins (initial_state hc mob) = Some (st, outs)"
    using run_total [OF assms] by blast
  have "frame (initial_state hc mob) = 0"
    by (simp add: initial_state_def init_state_def)
  then have n: "map frameNo outs = [1 .. int (length outs)]"
    using run_frameNos [OF r] by simp
  have c: "0 \<le> confidence (beatDetector (audioState st)) \<and>
           confidence (beatDetector (audioState st)) \<le> 1"
    using run_conf_inv [OF r] by (simp add: conf_inv_def)
  show ?thesis
    using r n c run_beats [OF r] detect_beat_facts(3) [of b fr bd] by blast
qed

text \<open>
  Witness for C5: silence with a frame of full-scale bass at processed frames 11 and 22, under
  the high-end profile. A beat fires on both, eleven frames apart.
\<close>

theorem beat_cooldown_and_confidence_witness:
  "list_all (\<lambda>x. snd x \<noteq> []) two_beats_scenario \<and>
   (\<exists>st outs o1 o2.
      run (profile_of 8 False) two_beats_scenario (initial_state 8 False) = Some (st, outs) \<and>
      o1 \<in> set outs \<and> o2 \<in> set outs \<and> isBeat o1 \<and> isBeat o2 \<and>
      frameNo o1 = 11 \<and> frameNo o2 = 22 \<and> frameNo o1 < frameNo o2 \<and>
      10 < frameNo o2 - frameNo o1 \<and>
      0 \<le> confidence (beatDetector (audioState st)) \<and>
      confidence (beatDetector (audioState st)) \<le> 1)"
proof -
  have ne: "\<forall>(rnd, d)\<in>set two_beats_scenario. d \<noteq> []"
    by (auto simp add: scen silent_def bass_only_def)
  from beat_cooldown_and_confidence [OF ne, of 8 False]
  obtain st outs where
    r: "run (profile_of 8 False) two_beats_scenario (initial_state 8 False) = Some (st, outs)"
    and far: "\<forall>o1\<in>set outs. \<forall>o2\<in>set outs.
              isBeat o1 \<and> isBeat o2 \<and> frameNo o1 < frameNo o2 \<longrightarrow>
              10 < frameNo o2 - frameNo o1"
    and c: "0 \<le> confidence (beatDetector (audioState st))"
      "confidence (beatDetector (audioState st)) \<le> 1"
    by blast
  have "map frameNo (filter isBeat outs) = [11, 22]"
    using scenario_two_beats r by simp
  then obtain o1 o2 where f: "filter isBeat outs = [o1, o2]" "frameNo o1 = 11" "frameNo o2 = 22"
    by (auto simp add: map_eq_Cons_conv)
  have "o1 \<in> set (filter isBeat outs)" "o2 \<in> set (filter isBeat outs)"
    by (simp_all add: f)
  then have m: "o1 \<in> set outs" "o2 \<in> set outs" "isBeat o1" "isBeat o2"
    by simp_all
  with far f have "10 < frameNo o2 - frameNo o1"
    by simp
  moreover have "list_all (\<lambda>x. snd x \<noteq> []) two_beats_scenario"
    using ne by (auto simp add: list_all_iff)
  ultimately show ?thesis
    using r m f c
    by (intro conjI exI [of _ st] exI [of _ outs] exI [of _ o1] exI [of _ o2]) simp_all
qed




section \<open>Pattern transition: claim\<close>

text \<open>
  Claim C4. At a state the render loop has reached, and after the next processed frame, the
  pattern progress is a multiple of 0.025 between 0 and 1. A processed frame that finds a transition active (progress below 1)
  raises the progress by exactly 0.025, starts no new transition and keeps the target; the
  current pattern becomes the target on the frame the progress reaches 1 and is unchanged
  before. A processed frame starts a transition only from progress 1, and then leaves the
  progress at 0.025 (the reset to 0 followed by the first step).
\<close>

theorem pattern_transition_steps:
  assumes "run (profile_of hc mob) ins (initial_state hc mob) = Some (st, outs)"
    and "draw (profile_of hc mob) rnd d st = Some (st', Some out)"
  shows "(\<exists>k\<le>40. patternTransition st = of_nat k / 40) \<and>
         (\<exists>k\<le>40. patternTransition st' = of_nat k / 40) \<and>
         (patternTransition st < 1 \<longrightarrow>
            patternTransition st' = patternTransition st + 25 / 1000 \<and>
            patternTransition st' \<le> 1 \<and> \<not> patternChanged out \<and>
            targetPattern st' = targetPattern st \<and>
            (patternTransition st' = 1 \<longrightarrow> currentPattern st' = targetPattern st') \<and>
            (patternTransition st' < 1 \<longrightarrow> currentPattern st' = currentPattern st)) \<and>
         (patternChanged out \<longrightarrow>
            patternTransition st = 1 \<and> patternTransition st' = 25 / 1000 \<and>
            currentPattern st' = currentPattern st) \<and>
         (patternTransition st = 1 \<and> \<not> patternChanged out \<longrightarrow>
            patternTransition st' = 1 \<and> currentPattern st' = currentPattern st \<and>
            targetPattern st' = targetPattern st)"
proof -
  let ?cfg = "profile_of hc mob"
  have inv: "pat_inv st"
    using assms(1) by (rule run_pat_inv)
  then obtain k where k: "k \<le> 40" "patternTransition st = of_nat k / 40"
    by (auto simp add: pat_inv_def)
  let ?st0 = "st\<lparr>frameCounter := frameCounter st + 1\<rparr>"
  from assms(2) obtain lv where pr: "process ?cfg rnd lv ?st0 = (st', out)"
    by (cases rule: draw_cases) auto
  have e: "st' = fst (process ?cfg rnd lv ?st0)" "out = snd (process ?cfg rnd lv ?st0)"
    by (simp_all add: pr)
  obtain X i where X: "patternTransition X = patternTransition st"
      "currentPattern X = currentPattern st" "targetPattern X = targetPattern st"
    and P: "patternTransition st' = patternTransition (snd (pattern_stage ?cfg lv (randPattern rnd) i X))"
      "currentPattern st' = currentPattern (snd (pattern_stage ?cfg lv (randPattern rnd) i X))"
      "targetPattern st' = targetPattern (snd (pattern_stage ?cfg lv (randPattern rnd) i X))"
      "patternChanged out = fst (pattern_stage ?cfg lv (randPattern rnd) i X)"
    using process_pattern_stage [of ?st0 ?cfg rnd lv] unfolding e by auto
  have kX: "patternTransition X = of_nat k / 40"
    using X k by simp
  have 1: "\<exists>k\<le>40. patternTransition st = of_nat k / 40"
    using k by blast
  have "pat_inv ?st0"
    using inv by (simp add: pat_inv_def)
  then have "pat_inv (fst (process ?cfg rnd lv ?st0))"
    by (rule process_pat_inv)
  then have 5: "\<exists>k\<le>40. patternTransition st' = of_nat k / 40"
    by (simp add: pr pat_inv_def)
  have 2: "patternTransition st' = patternTransition st + 25 / 1000 \<and>
            patternTransition st' \<le> 1 \<and> \<not> patternChanged out \<and>
            targetPattern st' = targetPattern st \<and>
            (patternTransition st' = 1 \<longrightarrow> currentPattern st' = targetPattern st') \<and>
            (patternTransition st' < 1 \<longrightarrow> currentPattern st' = currentPattern st)"
    if lt: "patternTransition st < 1"
  proof -
    have k40: "k < 40"
      using lt k by (cases "k = 40") simp_all
    note a = pattern_stage_active [OF kX k40, of ?cfg lv "randPattern rnd" i]
    have "Suc k \<le> 40" using k40 by simp
    then have "(of_nat (Suc k) :: rat) \<le> of_nat 40"
      by (simp only: of_nat_le_iff)
    then have le: "patternTransition st' \<le> 1"
      unfolding P(1) a(2) by simp
    show ?thesis
      using a le unfolding P X by simp
  qed
  have 3: "patternTransition st = 1 \<and> patternTransition st' = 25 / 1000 \<and>
            currentPattern st' = currentPattern st"
    if pc: "patternChanged out"
  proof -
    have tr: "fst (pattern_stage ?cfg lv (randPattern rnd) i X)"
      using pc P(4) by simp
    have one: "patternTransition X = 1"
      using tr by (rule pattern_stage_trigger)
    show ?thesis
      using pattern_stage_stable(1) [OF one tr] one unfolding P X by simp
  qed
  have 4: "patternTransition st' = 1 \<and> currentPattern st' = currentPattern st \<and>
            targetPattern st' = targetPattern st"
    if "patternTransition st = 1 \<and> \<not> patternChanged out"
  proof -
    have one: "patternTransition X = 1" and nt: "\<not> fst (pattern_stage ?cfg lv (randPattern rnd) i X)"
      using that X P(4) by simp_all
    show ?thesis
      using pattern_stage_stable(2) [OF one nt] unfolding P X by simp
  qed
  from 1 2 3 4 5 show ?thesis by blast
qed

text \<open>
  Witness for C4, under the mobile profile: after 180 processed frames of silence a frame of
  full scale starts a transition, and the next processed frame advances it.
\<close>

theorem pattern_transition_steps_witness:
  "(\<exists>st st' out.
      map_option fst (run (profile_of 2 True) (quiet_frames 542) (initial_state 2 True)) = Some st \<and>
      draw (profile_of 2 True) rand0 loud st = Some (st', Some out) \<and>
      patternChanged out \<and> patternTransition st = 1 \<and> patternTransition st' = 25 / 1000) \<and>
   (\<exists>st st' out.
      map_option fst
        (run (profile_of 2 True) (quiet_frames 542 @ [(rand0, loud)] @ quiet_frames 2)
           (initial_state 2 True)) = Some st \<and>
      draw (profile_of 2 True) rand0 silent st = Some (st', Some out) \<and>
      patternTransition st < 1 \<and> patternTransition st' = patternTransition st + 25 / 1000 \<and>
      \<not> patternChanged out \<and> targetPattern st' = targetPattern st)"
proof -
  let ?cfg = "profile_of 2 True" and ?init = "initial_state 2 True"
  obtain outs where r1: "run ?cfg (quiet_frames 542) ?init = Some (idle_state, outs)"
    using idle_reached by auto
  obtain st1 out1 where d1: "draw ?cfg rand0 loud idle_state = Some (st1, Some out1)"
    using draw_processed [OF idle_next_processed signals_nonempty(2), of rand0] by blast
  have pc: "patternChanged out1"
    using idle_draw_tree d1 by simp
  have A: "patternTransition idle_state = 1 \<and> patternTransition st1 = 25 / 1000"
    using pattern_transition_steps [OF r1 d1] pc by blast
  have "map_option fst (run ?cfg (quiet_frames 542 @ [(rand0, loud)] @ quiet_frames 2) ?init) =
        map_option fst (run ?cfg ([(rand0, loud)] @ quiet_frames 2) idle_state)"
    using idle_reached by (rule run_append_fst)
  with after_trigger obtain st2 outs2 where
    r2: "run ?cfg (quiet_frames 542 @ [(rand0, loud)] @ quiet_frames 2) ?init = Some (st2, outs2)"
    and v: "patternTransition st2 = 1 / 40" "frameCounter st2 = 545"
    by (auto simp add: map_option_case split: option.splits)
  have "(frameCounter st2 + 1) mod drawEveryNthFrame ?cfg = 0"
    by (simp add: v ev)
  from draw_processed [OF this signals_nonempty(1), of rand0]
  obtain st3 out3 where d2: "draw ?cfg rand0 silent st2 = Some (st3, Some out3)"
    by blast
  have lt: "patternTransition st2 < 1"
    by (simp add: v)
  have B: "patternTransition st3 = patternTransition st2 + 25 / 1000 \<and>
           \<not> patternChanged out3 \<and> targetPattern st3 = targetPattern st2"
    using pattern_transition_steps [OF r2 d2] lt by blast
  show ?thesis
    using r1 d1 pc A r2 d2 lt B
    by (intro conjI exI [of _ idle_state] exI [of _ st1] exI [of _ out1]
          exI [of _ st2] exI [of _ st3] exI [of _ out3]) simp_all
qed

section \<open>Symmetry and pattern choice: claims\<close>




text \<open>
  Claim C9. Whenever one of the dominant-band branches applies, the candidate list is the
  band-specific list, whatever the quality profile. The mobile profile has
  \<open>enableAdvancedEffects = false\<close>, and from the state it reaches after 180 processed frames of
  silence a frame with full bass selects \<open>SYMMETRICAL_WEB\<close>, a frame dominated by the high
  mids selects \<open>WAVE_PATTERN\<close>, and a frame at full scale in every bin selects \<open>FRACTAL_TREE\<close>
  as the target pattern.
\<close>

theorem band_list_replaces_candidates:
  "(8 / 10 < bassLevel lv \<and> highMidLevel lv < bassLevel lv \<longrightarrow>
      availablePatterns cfg lv = [STARBURST, NESTED_CIRCLES, SYMMETRICAL_WEB]) \<and>
   (7 / 10 < highMidLevel lv \<and> bassLevel lv < highMidLevel lv \<longrightarrow>
      availablePatterns cfg lv = [SPIRAL, WAVE_PATTERN, FLOWER]) \<and>
   (7 / 10 < trebleLevel lv \<and> \<not> (8 / 10 < bassLevel lv \<and> highMidLevel lv < bassLevel lv) \<and>
    \<not> (7 / 10 < highMidLevel lv \<and> bassLevel lv < highMidLevel lv) \<longrightarrow>
      availablePatterns cfg lv = [FRACTAL_TREE, NESTED_CIRCLES, FLOWER]) \<and>
   \<not> enableAdvancedEffects (profile_of 2 True) \<and>
   (\<exists>st st' out.
      map_option fst (run (profile_of 2 True) (quiet_frames 542) (initial_state 2 True)) = Some st \<and>
      draw (profile_of 2 True) rand_last bass_only st = Some (st', Some out) \<and>
      patternChanged out \<and> targetPattern st' = SYMMETRICAL_WEB) \<and>
   (\<exists>st st' out.
      map_option fst (run (profile_of 2 True) (quiet_frames 542) (initial_state 2 True)) = Some st \<and>
      draw (profile_of 2 True) rand_half mid_heavy st = Some (st', Some out) \<and>
      patternChanged out \<and> targetPattern st' = WAVE_PATTERN) \<and>
   (\<exists>st st' out.
      map_option fst (run (profile_of 2 True) (quiet_frames 542) (initial_state 2 True)) = Some st \<and>
      draw (profile_of 2 True) rand0 loud st = Some (st', Some out) \<and>
      patternChanged out \<and> targetPattern st' = FRACTAL_TREE)"
proof -
  let ?cfg = "profile_of 2 True"
  have sel: "\<exists>st st' out.
      map_option fst (run ?cfg (quiet_frames 542) (initial_state 2 True)) = Some st \<and>
      draw ?cfg rnd d st = Some (st', Some out) \<and> patternChanged out \<and> targetPattern st' = p"
    if ne: "d \<noteq> []"
      and v: "map_option (\<lambda>p. (targetPattern (fst p), map_option patternChanged (snd p)))
               (draw ?cfg rnd d idle_state) = Some (p, Some True)"
    for rnd d p
  proof -
    obtain st1 out1 where d1: "draw ?cfg rnd d idle_state = Some (st1, Some out1)"
      using draw_processed [OF idle_next_processed ne, of rnd] by blast
    have "patternChanged out1" "targetPattern st1 = p"
      using v d1 by simp_all
    with d1 idle_reached show ?thesis
      by blast
  qed
  have 1: "8 / 10 < bassLevel lv \<and> highMidLevel lv < bassLevel lv \<longrightarrow>
      availablePatterns cfg lv = [STARBURST, NESTED_CIRCLES, SYMMETRICAL_WEB]"
    by (simp add: availablePatterns_def)
  have 2: "7 / 10 < highMidLevel lv \<and> bassLevel lv < highMidLevel lv \<longrightarrow>
      availablePatterns cfg lv = [SPIRAL, WAVE_PATTERN, FLOWER]"
    by (simp add: availablePatterns_def)
  have 3: "7 / 10 < trebleLevel lv \<and> \<not> (8 / 10 < bassLevel lv \<and> highMidLevel lv < bassLevel lv) \<and>
    \<not> (7 / 10 < highMidLevel lv \<and> bassLevel lv < highMidLevel lv) \<longrightarrow>
      availablePatterns cfg lv = [FRACTAL_TREE, NESTED_CIRCLES, FLOWER]"
    by (simp add: availablePatterns_def)
  show ?thesis
    by (intro conjI 1 2 3 mobile_basic sel [OF signals_nonempty(3) idle_draw_web]
          sel [OF signals_nonempty(4) idle_draw_wave] sel [OF signals_nonempty(2) idle_draw_tree])
qed

text \<open>
  Witness for C9: the three branches at the band levels of the three frames above, under the
  mobile profile.
\<close>

theorem band_list_replaces_candidates_witness:
  "availablePatterns (profile_of 2 True)
     \<lparr>average = 5 / 64, bassLevel = 1, lowMidLevel = 0, highMidLevel = 0, trebleLevel = 0\<rparr>
     = [STARBURST, NESTED_CIRCLES, SYMMETRICAL_WEB] \<and>
   availablePatterns (profile_of 2 True)
     \<lparr>average = 55 / 102, bassLevel = 46 / 51, lowMidLevel = 0, highMidLevel = 1,
      trebleLevel = 0\<rparr>
     = [SPIRAL, WAVE_PATTERN, FLOWER] \<and>
   availablePatterns (profile_of 2 True)
     \<lparr>average = 1, bassLevel = 1, lowMidLevel = 1, highMidLevel = 1, trebleLevel = 1\<rparr>
     = [FRACTAL_TREE, NESTED_CIRCLES, FLOWER] \<and>
   \<not> enableAdvancedEffects (profile_of 2 True)"
  using band_list_replaces_candidates [of
      "\<lparr>average = 5 / 64, bassLevel = 1, lowMidLevel = 0, highMidLevel = 0, trebleLevel = 0\<rparr>"
      "profile_of 2 True"]
    band_list_replaces_candidates [of
      "\<lparr>average = 55 / 102, bassLevel = 46 / 51, lowMidLevel = 0, highMidLevel = 1,
        trebleLevel = 0\<rparr>" "profile_of 2 True"]
    band_list_replaces_candidates [of
      "\<lparr>average = 1, bassLevel = 1, lowMidLevel = 1, highMidLevel = 1, trebleLevel = 1\<rparr>"
      "profile_of 2 True"]
  by simp



end
